theory Spec2Isabelle
  imports Complex_Main "HOL-Library.Word"
begin

text \<open>
  The terminal progress multiplexer of \<open>logger.ts\<close>: the progress handles
  (\<open>TTYSpinner\<close>), the buffer of pending lines, the height estimator, the redraw and
  the teardown, with the logging call that feeds the buffer. Calls are functions from
  states to outcomes; the terminal stream, the console, the timers and the clock are
  part of the state, so that what a call writes and what it throws can be stated.
\<close>

section \<open>JavaScript strings\<close>

text \<open>
  A JavaScript string is a sequence of UTF-16 code units and \<open>length\<close> counts code units,
  so a string is a list of 16-bit words. \<open>ascii\<close> turns an ASCII literal into such a list.
\<close>

type_synonym jschar = "16 word"
type_synonym jsstring = "jschar list"

definition ascii :: "string \<Rightarrow> jsstring" where
  "ascii cs = map of_char cs"

definition TAB :: jschar where "TAB = 9"
definition LF :: jschar where "LF = 10"
definition ESC :: jschar where "ESC = 27"
definition SPACE :: jschar where "SPACE = 32"

text \<open>\<open>Array.prototype.join\<close> on an array of strings.\<close>

fun js_join :: "jsstring \<Rightarrow> jsstring list \<Rightarrow> jsstring" where
  "js_join sep [] = []"
| "js_join sep [x] = x"
| "js_join sep (x # y # ys) = x @ sep @ js_join sep (y # ys)"

text \<open>
  \<open>String.prototype.split\<close> with a string separator: the occurrences of the separator
  are found from left to right and do not overlap. \<open>skip\<close> counts the code units of a
  separator just matched that are still to be passed over, \<open>cur\<close> is the segment being
  collected. With the empty separator the string is cut into its code units.
\<close>

fun split_from :: "jsstring \<Rightarrow> nat \<Rightarrow> jsstring \<Rightarrow> jsstring \<Rightarrow> jsstring list" where
  "split_from sep skip cur [] = [cur]"
| "split_from sep skip cur (c # cs) =
     (if 0 < skip then split_from sep (skip - 1) cur cs
      else if take (length sep) (c # cs) = sep then cur # split_from sep (length sep - 1) [] cs
      else split_from sep 0 (cur @ [c]) cs)"

definition js_split :: "jsstring \<Rightarrow> jsstring \<Rightarrow> jsstring list" where
  "js_split str sep = (if sep = [] then map (\<lambda>c. [c]) str else split_from sep 0 [] str)"

text \<open>
  \<open>String.prototype.replaceAll\<close> with a string pattern and a replacement without
  \<open>$\<close> patterns: every occurrence of the pattern, found from left to right without
  overlap, is replaced. With the empty pattern the replacement goes between all code units.
\<close>

fun replaceAll_from :: "jsstring \<Rightarrow> jsstring \<Rightarrow> nat \<Rightarrow> jsstring \<Rightarrow> jsstring" where
  "replaceAll_from pat rep skip [] = []"
| "replaceAll_from pat rep skip (c # cs) =
     (if 0 < skip then replaceAll_from pat rep (skip - 1) cs
      else if take (length pat) (c # cs) = pat then rep @ replaceAll_from pat rep (length pat - 1) cs
      else c # replaceAll_from pat rep 0 cs)"

definition replaceAll :: "jsstring \<Rightarrow> jsstring \<Rightarrow> jsstring \<Rightarrow> jsstring" where
  "replaceAll str pat rep =
     (if pat = [] then rep @ concat (map (\<lambda>c. c # rep) str) else replaceAll_from pat rep 0 str)"

text \<open>
  The string iterator behind the spread \<open>...str\<close>: one element per code point, a high
  surrogate followed by a low surrogate staying together.
\<close>

definition isHighSurrogate :: "jschar \<Rightarrow> bool" where
  "isHighSurrogate c = (0xD800 \<le> c \<and> c \<le> 0xDBFF)"

definition isLowSurrogate :: "jschar \<Rightarrow> bool" where
  "isLowSurrogate c = (0xDC00 \<le> c \<and> c \<le> 0xDFFF)"

fun spread :: "jsstring \<Rightarrow> jsstring list" where
  "spread [] = []"
| "spread [c] = [[c]]"
| "spread (c # d # cs) =
     (if isHighSurrogate c \<and> isLowSurrogate d then [c, d] # spread cs else [c] # spread (d # cs))"

section \<open>Loggers\<close>

datatype LogLevel = emerg | alert | crit | error | warn | notice | info | verb | debug | wth

fun LEVEL_METHODS :: "LogLevel \<Rightarrow> nat" where
  "LEVEL_METHODS emerg = 0"
| "LEVEL_METHODS alert = 1"
| "LEVEL_METHODS crit = 2"
| "LEVEL_METHODS error = 3"
| "LEVEL_METHODS warn = 4"
| "LEVEL_METHODS notice = 5"
| "LEVEL_METHODS info = 6"
| "LEVEL_METHODS verb = 7"
| "LEVEL_METHODS debug = 8"
| "LEVEL_METHODS wth = 9"

text \<open>The console methods a level writes through (\<open>LEVEL_PARAMS[level].methods\<close>).\<close>

datatype console_method = console_error | console_trace | console_warn | console_info | console_debug

fun LEVEL_PARAMS_methods :: "LogLevel \<Rightarrow> console_method list" where
  "LEVEL_PARAMS_methods emerg = [console_error, console_trace]"
| "LEVEL_PARAMS_methods alert = [console_error, console_trace]"
| "LEVEL_PARAMS_methods crit = [console_error, console_trace]"
| "LEVEL_PARAMS_methods error = [console_error]"
| "LEVEL_PARAMS_methods warn = [console_warn]"
| "LEVEL_PARAMS_methods notice = [console_info]"
| "LEVEL_PARAMS_methods info = [console_info]"
| "LEVEL_PARAMS_methods verb = [console_debug]"
| "LEVEL_PARAMS_methods debug = [console_debug]"
| "LEVEL_PARAMS_methods wth = [console_debug]"

text \<open>
  \<open>LoggerOptions\<close> without \<open>inspect\<close>: the arguments of the logging calls modelled
  here are strings, which \<open>util.inspect\<close> never sees.
\<close>

record LoggerOptions =
  enabled :: bool
  stack :: bool
  date :: bool
  duration :: bool
  level :: "LogLevel option"
  pad :: bool
  color :: bool
  uid :: bool

record LoggerBase =
  options :: LoggerOptions
  lastLog :: "int option"

text \<open>The logger objects of the registry: the root logger and one logger per scope name.\<close>

datatype logger_ref = RootLogger | ScopeLogger jsstring

section \<open>Collaborators outside the multiplexer\<close>

text \<open>
  Functions and constants that come from the platform or from the formatting layer
  enter as parameters: \<open>stripVTControlCharacters\<close> (node:util), \<open>EOL\<close> (node:os),
  the level prefix of a logger (\<open>getPrefix\<close>, which reads the loggers' options), the
  formatting of a date and of a duration in milliseconds, whether the code runs in a web
  worker, and the caller description that the \<open>stack\<close> option prints. Every theorem
  below holds for all of them.
\<close>

record ext =
  stripVTControlCharacters :: "jsstring \<Rightarrow> jsstring"
  EOL :: jsstring
  getPrefix :: "(logger_ref \<Rightarrow> LoggerBase) \<Rightarrow> logger_ref \<Rightarrow> LogLevel \<Rightarrow> jsstring list"
  getDatePrefix :: "int \<Rightarrow> jsstring"
  getDurationPrefix :: "int \<Rightarrow> jsstring"
  inWebWorker :: bool
  stackDisplay :: jsstring

section \<open>The height estimator\<close>

text \<open>
  \<open>getContentHeight\<close> reads \<open>stdOut.columns\<close>; the width is passed in. The quotient
  \<open>line.length / width\<close> of two integers below \<open>2^53\<close> is rounded by less than the
  distance of the exact quotient to the next integer below it, so \<open>Math.ceil\<close> of it is
  the ceiling of the exact quotient. For width 0 JavaScript yields \<open>Infinity\<close> or
  \<open>NaN\<close>, which is no row count: the theorems about heights assume a width of at
  least 1. The \<open>for\<close> loop over the lines is the left fold.
\<close>

definition getContentHeight :: "ext \<Rightarrow> nat \<Rightarrow> jsstring \<Rightarrow> nat" where
  "getContentHeight x width str =
     (let lines = js_split (stripVTControlCharacters x str) [LF]
      in foldl (\<lambda>height line. height + max 1 (nat \<lceil>real (length line) / real width\<rceil>)) 0 lines)"

section \<open>Progress handles and the multiplexer state\<close>

record SpinnerOptions =
  opt_text :: jsstring
  opt_prefix :: "jsstring option"
  runningIcon :: "jsstring option"
  successIcon :: "jsstring option"
  failIcon :: "jsstring option"
  opt_date :: bool
  opt_duration :: bool

text \<open>\<open>_prefix?: string | false\<close> and \<open>_icon: string | string[] | null\<close>.\<close>

datatype spinner_prefix = PrefixFalse | PrefixUndefined | PrefixText jsstring

datatype spinner_icon = Frames "jsstring list" | Glyph jsstring | NoIcon

record TTYSpinner =
  sp_prefix :: spinner_prefix
  sp_text :: jsstring
  iconIndex :: nat
  icon :: spinner_icon
  sp_logger :: logger_ref
  sp_level :: LogLevel
  started :: "int option"
  stopped :: "int option"
  spinnerOptions :: SpinnerOptions

text \<open>What the terminal stream and the console were asked to do, in order.\<close>

datatype tty_op = Write jsstring | CursorTo nat | MoveCursor int int | ClearLine int

text \<open>A thrown value: an \<open>Error\<close> with its message, or another value with its JSON text.\<close>

datatype thrown = ErrorObject jsstring | OtherValue jsstring

text \<open>The two callbacks the multiplexer hands to \<open>setInterval\<close>.\<close>

datatype timer_callback = SpinThenRefresh | RefreshOnly

text \<open>
  The module's variables (\<open>runningSpinners\<close>, an insertion-ordered set, as the list of
  the handles in insertion order; the two interval handles; \<open>newBuffered\<close>;
  \<open>currentBufferHeight\<close>), the registry, the heap of the \<open>TTYSpinner\<close> objects, and
  the host: the clock \<open>new Date()\<close> reads, the terminal stream (\<open>isTTY\<close>,
  \<open>columns\<close>, the operations it received, how often \<open>handleTerminalResize\<close> is
  registered for \<open>resize\<close>, and the value its operations throw when it is broken), the
  interval timers that are set (handle, period, callback), the console (the calls it
  received and what each of its methods throws when broken) and the environment
  variable \<open>LLOGGER_ENABLED\<close>.
\<close>

record state =
  loggers :: "logger_ref \<Rightarrow> LoggerBase"
  exclusive :: "logger_ref option"
  spinners :: "nat \<Rightarrow> TTYSpinner"
  runningSpinners :: "nat list"
  spinnersRefreshInterval :: "nat option"
  ttyRefreshInterval :: "nat option"
  newBuffered :: "jsstring list"
  currentBufferHeight :: nat
  clock :: int
  isTTY :: bool
  columns :: nat
  tty :: "tty_op list"
  resizeListeners :: nat
  stdOutFault :: "thrown option"
  timers :: "(nat \<times> nat \<times> timer_callback) list"
  nextTimer :: nat
  console :: "(console_method \<times> jsstring list) list"
  consoleFault :: "console_method \<Rightarrow> thrown option"
  LLOGGER_ENABLED :: "jsstring option"

text \<open>
  A call either returns, or throws a value; either way it leaves a state behind.
\<close>

datatype outcome = Normal state | Throw thrown state

definition andThen :: "outcome \<Rightarrow> (state \<Rightarrow> outcome) \<Rightarrow> outcome" where
  "andThen r f = (case r of Normal s \<Rightarrow> f s | Throw e s \<Rightarrow> Throw e s)"

text \<open>A sequence of statements, and a \<open>for ... of\<close> loop over a list.\<close>

fun block :: "(state \<Rightarrow> outcome) list \<Rightarrow> state \<Rightarrow> outcome" where
  "block [] s = Normal s"
| "block (f # fs) s = andThen (f s) (block fs)"

fun forEach :: "'a list \<Rightarrow> ('a \<Rightarrow> state \<Rightarrow> outcome) \<Rightarrow> state \<Rightarrow> outcome" where
  "forEach [] body s = Normal s"
| "forEach (a # as) body s = andThen (body a s) (forEach as body)"

definition assign :: "(state \<Rightarrow> state) \<Rightarrow> state \<Rightarrow> outcome" where
  "assign f s = Normal (f s)"

definition final_state :: "outcome \<Rightarrow> state" where
  "final_state r = (case r of Normal s \<Rightarrow> s | Throw e s \<Rightarrow> s)"

definition returns :: "outcome \<Rightarrow> bool" where
  "returns r = (case r of Normal s \<Rightarrow> True | Throw e s \<Rightarrow> False)"

subsection \<open>The host's primitives\<close>

definition stdOut_op :: "tty_op \<Rightarrow> state \<Rightarrow> outcome" where
  "stdOut_op c s =
     (case stdOutFault s of Some e \<Rightarrow> Throw e s | None \<Rightarrow> Normal (s\<lparr>tty := tty s @ [c]\<rparr>))"

definition stdOut_write :: "jsstring \<Rightarrow> state \<Rightarrow> outcome" where
  "stdOut_write str = stdOut_op (Write str)"

definition stdOut_cursorTo :: "nat \<Rightarrow> state \<Rightarrow> outcome" where
  "stdOut_cursorTo col = stdOut_op (CursorTo col)"

definition stdOut_moveCursor :: "int \<Rightarrow> int \<Rightarrow> state \<Rightarrow> outcome" where
  "stdOut_moveCursor dx dy = stdOut_op (MoveCursor dx dy)"

definition stdOut_clearLine :: "int \<Rightarrow> state \<Rightarrow> outcome" where
  "stdOut_clearLine dir = stdOut_op (ClearLine dir)"

definition stdOut_on_resize :: "state \<Rightarrow> state" where
  "stdOut_on_resize s = s\<lparr>resizeListeners := resizeListeners s + 1\<rparr>"

definition stdOut_off_resize :: "state \<Rightarrow> state" where
  "stdOut_off_resize s = s\<lparr>resizeListeners := resizeListeners s - 1\<rparr>"

definition setInterval :: "timer_callback \<Rightarrow> nat \<Rightarrow> state \<Rightarrow> nat \<times> state" where
  "setInterval cb ms s =
     (nextTimer s, s\<lparr>timers := timers s @ [(nextTimer s, ms, cb)], nextTimer := nextTimer s + 1\<rparr>)"

definition clearInterval :: "nat option \<Rightarrow> state \<Rightarrow> state" where
  "clearInterval h s =
     (case h of None \<Rightarrow> s | Some t \<Rightarrow> s\<lparr>timers := filter (\<lambda>e. fst e \<noteq> t) (timers s)\<rparr>)"

definition console_call :: "console_method \<Rightarrow> jsstring list \<Rightarrow> state \<Rightarrow> outcome" where
  "console_call m args s =
     (case consoleFault s m of
        Some e \<Rightarrow> Throw e s
      | None \<Rightarrow> Normal (s\<lparr>console := console s @ [(m, args)]\<rparr>))"

definition CURSOR_HIDE :: jsstring where
  "CURSOR_HIDE = ESC # ascii ''[?25l''"

definition CURSOR_SHOW :: jsstring where
  "CURSOR_SHOW = ESC # ascii ''[?25h''"

definition SPINNER_REFRESH_INTERVAL :: nat where
  "SPINNER_REFRESH_INTERVAL = 80"

definition TTY_REFRESH_INTERVAL :: nat where
  "TTY_REFRESH_INTERVAL = SPINNER_REFRESH_INTERVAL"

subsection \<open>Rendering a handle\<close>

text \<open>
  \<open>TTYSpinner.toString(withLevelPrefix?)\<close> reads the handle's fields, the loggers (for
  the level prefix) and the clock. An index outside the frame array reads
  \<open>undefined\<close>, which like the empty string adds nothing.
\<close>

definition TTYSpinner_toString ::
  "ext \<Rightarrow> (logger_ref \<Rightarrow> LoggerBase) \<Rightarrow> int \<Rightarrow> TTYSpinner \<Rightarrow> bool option \<Rightarrow> jsstring" where
  "TTYSpinner_toString x lgs now sp withLevelPrefix =
     (let t1 = (case sp_prefix sp of
                  PrefixFalse \<Rightarrow> []
                | PrefixUndefined \<Rightarrow>
                    (if (case withLevelPrefix of None \<Rightarrow> True | Some b \<Rightarrow> b)
                     then js_join [SPACE] (getPrefix x lgs (sp_logger sp) (sp_level sp)) @ [SPACE]
                     else [])
                | PrefixText p \<Rightarrow>
                    (if (case withLevelPrefix of None \<Rightarrow> True | Some b \<Rightarrow> b)
                     then js_join [SPACE] (getPrefix x lgs (sp_logger sp) (sp_level sp)) @ [SPACE]
                     else [])
                    @ (if p \<noteq> [] then p @ [SPACE] else []));
          t2 = (case started sp of
                  Some since \<Rightarrow>
                    if opt_date (spinnerOptions sp) then getDatePrefix x since @ [SPACE] else []
                | None \<Rightarrow> []);
          t3 = (case started sp of
                  Some since \<Rightarrow>
                    if opt_duration (spinnerOptions sp)
                    then getDurationPrefix x
                           ((case stopped sp of Some to \<Rightarrow> to | None \<Rightarrow> now) - since) @ [SPACE]
                    else []
                | None \<Rightarrow> []);
          t4 = (case icon sp of
                  Frames fs \<Rightarrow>
                    if iconIndex sp < length fs \<and> fs ! iconIndex sp \<noteq> []
                    then fs ! iconIndex sp @ [SPACE] else []
                | Glyph g \<Rightarrow> g @ [SPACE]
                | NoIcon \<Rightarrow> [])
      in t1 @ t2 @ t3 @ t4 @ sp_text sp)"

definition toString :: "ext \<Rightarrow> state \<Rightarrow> nat \<Rightarrow> bool option \<Rightarrow> jsstring" where
  "toString x s i withLevelPrefix =
     TTYSpinner_toString x (loggers s) (clock s) (spinners s i) withLevelPrefix"

subsection \<open>The multiplexer\<close>

definition isRefreshing :: "state \<Rightarrow> bool" where
  "isRefreshing s = (spinnersRefreshInterval s \<noteq> None)"

definition addContentToBuffer :: "jsstring \<Rightarrow> state \<Rightarrow> state" where
  "addContentToBuffer str s =
     (let tabbed = replaceAll str [TAB] [SPACE, SPACE, SPACE]
      in s\<lparr>newBuffered := newBuffered s @ [tabbed]\<rparr>)"

text \<open>
  \<open>clearTTY\<close>: the loop runs for the indices below \<open>currentBufferHeight\<close>, which
  nothing in its body changes.
\<close>

definition clearTTY :: "state \<Rightarrow> outcome" where
  "clearTTY =
     block
       [stdOut_cursorTo 0,
        (\<lambda>s. forEach [0 ..< currentBufferHeight s]
                (\<lambda>index. block
                   [(\<lambda>s. if 0 < index then stdOut_moveCursor 0 (- 1) s else Normal s),
                    stdOut_clearLine 1]) s),
        assign (\<lambda>s. s\<lparr>currentBufferHeight := 0\<rparr>)]"

text \<open>
  \<open>refreshTTY\<close>: the argument of \<open>stdOut.write\<close> is evaluated first; mapping the
  running handles to their renderings adds each rendering's height to
  \<open>currentBufferHeight\<close>. Every member of \<open>runningSpinners\<close> is a \<open>TTYSpinner\<close>
  (no other class adds itself), so the \<open>instanceof\<close> filter keeps them all.
\<close>

definition refreshTTY :: "ext \<Rightarrow> state \<Rightarrow> outcome" where
  "refreshTTY x s =
     (if \<not> isRefreshing s then Normal s
      else block
        [clearTTY,
         (\<lambda>s. let contents = map (\<lambda>sp. toString x s sp None) (runningSpinners s);
                  s' = s\<lparr>currentBufferHeight :=
                          foldl (\<lambda>h spinnerContent. h + getContentHeight x (columns s) spinnerContent)
                            (currentBufferHeight s) contents\<rparr>
              in stdOut_write (js_join (EOL x) (newBuffered s @ contents)) s'),
         assign (\<lambda>s. s\<lparr>newBuffered := []\<rparr>)] s)"

definition handleTerminalResize :: "ext \<Rightarrow> state \<Rightarrow> outcome" where
  "handleTerminalResize x =
     block
       [assign (\<lambda>s. s\<lparr>currentBufferHeight := 0\<rparr>),
        (\<lambda>s. forEach (runningSpinners s)
                (\<lambda>spinner. assign (\<lambda>s. s\<lparr>currentBufferHeight :=
                     currentBufferHeight s + getContentHeight x (columns s) (toString x s spinner None)\<rparr>)) s),
        refreshTTY x]"

definition startRefresh :: "ext \<Rightarrow> state \<Rightarrow> outcome" where
  "startRefresh x s =
     (if \<not> isRefreshing s \<and> isTTY s
      then block
        [stdOut_write CURSOR_HIDE,
         assign stdOut_on_resize,
         assign (\<lambda>s. let (h, s') = setInterval SpinThenRefresh SPINNER_REFRESH_INTERVAL s
                      in s'\<lparr>spinnersRefreshInterval := Some h\<rparr>),
         assign (\<lambda>s. let (h, s') = setInterval RefreshOnly TTY_REFRESH_INTERVAL s
                      in s'\<lparr>ttyRefreshInterval := Some h\<rparr>),
         refreshTTY x] s
      else Normal s)"

definition stopRefreshTTY :: "ext \<Rightarrow> state \<Rightarrow> outcome" where
  "stopRefreshTTY x s =
     (if isRefreshing s
      then block
        [refreshTTY x,
         stdOut_write (EOL x),
         stdOut_write CURSOR_SHOW,
         assign stdOut_off_resize,
         assign (\<lambda>s. clearInterval (spinnersRefreshInterval s) s),
         assign (\<lambda>s. s\<lparr>spinnersRefreshInterval := None\<rparr>),
         assign (\<lambda>s. clearInterval (ttyRefreshInterval s) s),
         assign (\<lambda>s. s\<lparr>ttyRefreshInterval := None\<rparr>),
         assign (\<lambda>s. s\<lparr>currentBufferHeight := 0\<rparr>)] s
      else Normal s)"

subsection \<open>Colours of the default icons\<close>

text \<open>
  \<open>colorize\<close> with the tables \<open>STYLES.color\<close> and \<open>STYLES['background-color']\<close>;
  a name outside a table adds no code (the names that every object inherits, such as
  \<open>constructor\<close>, are left out: the module passes \<open>cyan\<close>, \<open>green\<close> and
  \<open>red\<close> only). \<open>decimal\<close> is the decimal text of a number, as
  \<open>join\<close> prints it.
\<close>

function decimal :: "nat \<Rightarrow> jsstring" where
  "decimal n = (if n < 10 then [of_nat (48 + n)] else decimal (n div 10) @ [of_nat (48 + n mod 10)])"
  by pat_completeness auto
termination
  by (relation "measure id") auto

declare decimal.simps [simp del]

definition STYLES_color :: "jsstring \<Rightarrow> nat list option" where
  "STYLES_color name =
     (if name = ascii ''black'' then Some [30]
      else if name = ascii ''grey'' then Some [100]
      else if name = ascii ''white'' then Some [38, 5, 15]
      else if name = ascii ''red'' then Some [31]
      else if name = ascii ''green'' then Some [32]
      else if name = ascii ''yellow'' then Some [93]
      else if name = ascii ''orange'' then Some [33]
      else if name = ascii ''blue'' then Some [94]
      else if name = ascii ''cyan'' then Some [36]
      else None)"

definition STYLES_background_color :: "jsstring \<Rightarrow> nat list option" where
  "STYLES_background_color name =
     (if name = ascii ''black'' then Some [40]
      else if name = ascii ''grey'' then Some [48, 5, 249]
      else if name = ascii ''white'' then Some [107]
      else if name = ascii ''red'' then Some [48, 5, 160]
      else if name = ascii ''green'' then Some [48, 5, 40]
      else if name = ascii ''yellow'' then Some [48, 5, 226]
      else if name = ascii ''orange'' then Some [48, 5, 208]
      else if name = ascii ''blue'' then Some [48, 5, 21]
      else if name = ascii ''cyan'' then Some [46]
      else None)"

record style =
  style_color :: "jsstring option"
  style_background_color :: "jsstring option"

definition colorize :: "jsstring \<Rightarrow> style option \<Rightarrow> jsstring" where
  "colorize txt st =
     (case st of
        None \<Rightarrow> txt
      | Some sty \<Rightarrow>
          (let colors1 = (case style_color sty of
                            None \<Rightarrow> []
                          | Some c \<Rightarrow> (if c = [] then []
                                       else case STYLES_color c of None \<Rightarrow> [] | Some codes \<Rightarrow> codes));
               colors = colors1 @
                        (case style_background_color sty of
                           None \<Rightarrow> []
                         | Some c \<Rightarrow> (if c = [] then []
                                      else case STYLES_background_color c of None \<Rightarrow> [] | Some codes \<Rightarrow> codes))
           in if colors \<noteq> []
              then ESC # ascii ''['' @ js_join (ascii '';'') (map decimal colors) @ ascii ''m'' @ txt
                   @ ESC # ascii ''[0m''
              else txt))"

definition DEFAULT_TTY_SPINNER :: jsstring where
  "DEFAULT_TTY_SPINNER =
     js_join (ascii ''||'')
       (map (\<lambda>s. colorize s (Some \<lparr>style_color = Some (ascii ''cyan''), style_background_color = None\<rparr>))
          (js_split [0x280B, 0x2819, 0x2839, 0x2838, 0x283C, 0x2834, 0x2826, 0x2827, 0x2807, 0x280F] []))"

definition DEFAULT_TTY_SUCCESS_ICON :: jsstring where
  "DEFAULT_TTY_SUCCESS_ICON =
     colorize [0x2714] (Some \<lparr>style_color = Some (ascii ''green''), style_background_color = None\<rparr>)"

definition DEFAULT_TTY_FAIL_ICON :: jsstring where
  "DEFAULT_TTY_FAIL_ICON =
     colorize [0x2716] (Some \<lparr>style_color = Some (ascii ''red''), style_background_color = None\<rparr>)"

subsection \<open>The logging call\<close>

text \<open>
  \<open>computeOptions\<close>: a logger's options merged with the root logger's.
\<close>

definition computeOptions :: "state \<Rightarrow> logger_ref \<Rightarrow> LoggerOptions" where
  "computeOptions s logger =
     (let computed = options (loggers s logger);
          root = options (loggers s RootLogger)
      in computed\<lparr>
           level := (case level root of
                       None \<Rightarrow> level computed
                     | Some rl \<Rightarrow>
                         (case level computed of
                            None \<Rightarrow> Some rl
                          | Some cl \<Rightarrow> if LEVEL_METHODS rl < LEVEL_METHODS cl then Some rl else Some cl)),
           date := date computed \<or> date root,
           duration := duration computed \<or> duration root,
           pad := pad computed \<or> pad root,
           stack := stack computed \<or> stack root,
           color := color computed \<and> color root\<rparr>)"

datatype prefix_override = PrefixString jsstring | PrefixArray "jsstring list"

definition setLastLog :: "logger_ref \<Rightarrow> int \<Rightarrow> state \<Rightarrow> state" where
  "setLastLog logger t s = s\<lparr>loggers := (loggers s)(logger := (loggers s logger)\<lparr>lastLog := Some t\<rparr>)\<rparr>"

text \<open>
  The body of the \<open>try\<close> in \<open>outputLog\<close>, for string arguments (which neither
  \<open>util.inspect\<close> nor the \<open>uid\<close> option changes). Every level has its entry in
  \<open>LEVEL_PARAMS\<close>, so the check for a missing entry never returns. One call reads one
  clock value.
\<close>

definition outputLog_try ::
  "ext \<Rightarrow> LogLevel \<Rightarrow> jsstring list \<Rightarrow> logger_ref \<Rightarrow> prefix_override option \<Rightarrow> state \<Rightarrow> outcome" where
  "outputLog_try x logLevel args logger override s =
     (if \<not> enabled (options (loggers s logger)) \<or> \<not> enabled (options (loggers s RootLogger))
         \<or> LLOGGER_ENABLED s = Some (ascii ''false'')
      then Normal s
      else if exclusive s \<noteq> None \<and> exclusive s \<noteq> Some logger then Normal s
      else
        let opts = computeOptions s logger
        in if (case level opts of Some l \<Rightarrow> LEVEL_METHODS l < LEVEL_METHODS logLevel | None \<Rightarrow> False)
           then Normal s
           else
             let logPrefix0 =
                   (case override of
                      Some (PrefixArray a) \<Rightarrow> a
                    | Some (PrefixString p) \<Rightarrow>
                        if p \<noteq> [] then [p] else getPrefix x (loggers s) logger logLevel
                    | None \<Rightarrow> getPrefix x (loggers s) logger logLevel);
                 logPrefix1 = logPrefix0 @ (if inWebWorker x then [ascii ''[*]''] else []);
                 time = duration opts;
                 s1 = (if time \<and> lastLog (loggers s logger) = None
                       then setLastLog logger (clock s) s else s);
                 now = clock s;
                 logPrefix2 = logPrefix1 @ (if date opts then [getDatePrefix x now] else []);
                 logPrefix3 = logPrefix2 @
                   (if time
                    then [getDurationPrefix x
                            (now - (case lastLog (loggers s1 logger) of Some l \<Rightarrow> l | None \<Rightarrow> 0))]
                    else []);
                 s2 = (if time then setLastLog logger (clock s) s1 else s1);
                 logPrefix = logPrefix3 @
                   (if stack opts \<and> stackDisplay x \<noteq> []
                    then [ascii ''('' @ stackDisplay x @ ascii '')''] else []);
                 callArgs = args
             in if isRefreshing s2
                then Normal (addContentToBuffer (js_join [SPACE] (logPrefix @ callArgs)) s2)
                else forEach (LEVEL_PARAMS_methods logLevel)
                       (\<lambda>m. console_call m (logPrefix @ callArgs)) s2)"

definition thrown_text :: "thrown \<Rightarrow> jsstring" where
  "thrown_text e = (case e of ErrorObject message \<Rightarrow> message | OtherValue json \<Rightarrow> json)"

definition outputLog ::
  "ext \<Rightarrow> LogLevel \<Rightarrow> jsstring list \<Rightarrow> logger_ref \<Rightarrow> prefix_override option \<Rightarrow> state \<Rightarrow> outcome" where
  "outputLog x logLevel args logger override s =
     (case outputLog_try x logLevel args logger override s of
        Normal s' \<Rightarrow> Normal s'
      | Throw e s' \<Rightarrow> console_call console_error [thrown_text e] s')"

text \<open>\<open>logger.log(level, ...args)\<close>, which is \<open>logAtLevel\<close>.\<close>

definition logger_log :: "ext \<Rightarrow> logger_ref \<Rightarrow> LogLevel \<Rightarrow> jsstring list \<Rightarrow> state \<Rightarrow> outcome" where
  "logger_log x logger lvl args = outputLog x lvl args logger None"

subsection \<open>The methods of a handle\<close>

definition setText :: "nat \<Rightarrow> jsstring \<Rightarrow> state \<Rightarrow> state" where
  "setText i txt s = s\<lparr>spinners := (spinners s)(i := (spinners s i)\<lparr>sp_text := txt\<rparr>)\<rparr>"

definition set_icon :: "nat \<Rightarrow> spinner_icon \<Rightarrow> state \<Rightarrow> state" where
  "set_icon i ic s = s\<lparr>spinners := (spinners s)(i := (spinners s i)\<lparr>icon := ic, iconIndex := 0\<rparr>)\<rparr>"

definition runningSpinners_add :: "nat \<Rightarrow> state \<Rightarrow> state" where
  "runningSpinners_add i s =
     (if i \<in> set (runningSpinners s) then s else s\<lparr>runningSpinners := runningSpinners s @ [i]\<rparr>)"

definition runningSpinners_delete :: "nat \<Rightarrow> state \<Rightarrow> state" where
  "runningSpinners_delete i s = s\<lparr>runningSpinners := filter (\<lambda>j. j \<noteq> i) (runningSpinners s)\<rparr>"

definition start :: "ext \<Rightarrow> nat \<Rightarrow> state \<Rightarrow> outcome" where
  "start x i s =
     (if \<not> enabled (options (loggers s RootLogger))
         \<or> \<not> enabled (options (loggers s (sp_logger (spinners s i))))
      then Normal s
      else if started (spinners s i) = None
      then block
        [assign (\<lambda>s. s\<lparr>spinners := (spinners s)(i := (spinners s i)\<lparr>started := Some (clock s)\<rparr>)\<rparr>),
         assign (runningSpinners_add i),
         (\<lambda>s. if \<not> isRefreshing s then startRefresh x s else Normal s),
         (\<lambda>s. if \<not> isRefreshing s
              then logger_log x (sp_logger (spinners s i)) (sp_level (spinners s i))
                     (spread (toString x s i (Some False))) s
              else Normal s)] s
      else Normal s)"

definition update :: "nat \<Rightarrow> jsstring \<Rightarrow> state \<Rightarrow> outcome" where
  "update i txt s = Normal (setText i txt s)"

definition stop :: "ext \<Rightarrow> nat \<Rightarrow> state \<Rightarrow> outcome" where
  "stop x i s =
     (if stopped (spinners s i) = None \<and> started (spinners s i) \<noteq> None
      then block
        [assign (\<lambda>s. s\<lparr>spinners := (spinners s)(i := (spinners s i)\<lparr>stopped := Some (clock s)\<rparr>)\<rparr>),
         assign (runningSpinners_delete i),
         assign (\<lambda>s. addContentToBuffer (toString x s i None) s),
         (\<lambda>s. if \<not> isRefreshing s
              then logger_log x (sp_logger (spinners s i)) (sp_level (spinners s i))
                     [toString x s i (Some False)] s
              else if runningSpinners s = [] then stopRefreshTTY x s
              else Normal s)] s
      else Normal s)"

definition success :: "ext \<Rightarrow> nat \<Rightarrow> jsstring option \<Rightarrow> state \<Rightarrow> outcome" where
  "success x i txt =
     block
       [assign (\<lambda>s. case txt of None \<Rightarrow> s | Some t \<Rightarrow> setText i t s),
        assign (\<lambda>s. set_icon i
                  (Glyph (case successIcon (spinnerOptions (spinners s i)) of
                            Some ic \<Rightarrow> ic | None \<Rightarrow> DEFAULT_TTY_SUCCESS_ICON)) s),
        stop x i]"

definition fail :: "ext \<Rightarrow> nat \<Rightarrow> jsstring option \<Rightarrow> state \<Rightarrow> outcome" where
  "fail x i txt =
     block
       [assign (\<lambda>s. case txt of None \<Rightarrow> s | Some t \<Rightarrow> setText i t s),
        assign (\<lambda>s. set_icon i
                  (Glyph (case failIcon (spinnerOptions (spinners s i)) of
                            Some ic \<Rightarrow> ic | None \<Rightarrow> DEFAULT_TTY_FAIL_ICON)) s),
        stop x i]"

text \<open>
  \<open>spin\<close>: \<open>this._icon && this._icon.length > 1\<close> holds for a frame array with more
  than one frame and for a string of more than one code unit.
\<close>

definition icon_length :: "spinner_icon \<Rightarrow> nat" where
  "icon_length ic = (case ic of Frames fs \<Rightarrow> length fs | Glyph g \<Rightarrow> length g | NoIcon \<Rightarrow> 0)"

definition spin :: "nat \<Rightarrow> state \<Rightarrow> state" where
  "spin i s =
     (let sp = spinners s i
      in if started sp \<noteq> None \<and> stopped sp = None \<and> 1 < icon_length (icon sp)
         then s\<lparr>spinners := (spinners s)(i := sp\<lparr>iconIndex :=
                 (if icon_length (icon sp) \<le> iconIndex sp + 1 then 0 else iconIndex sp + 1)\<rparr>)\<rparr>
         else s)"

text \<open>
  The constructor, building the object at the fresh reference \<open>i\<close>, and the \<open>spin\<close>
  method of a log method in the branch that builds a \<open>TTYSpinner\<close> (the stream is a
  terminal and the \<open>console\<close> option is not set), which calls \<open>start\<close> once more.
\<close>

definition new_TTYSpinner :: "ext \<Rightarrow> nat \<Rightarrow> logger_ref \<Rightarrow> LogLevel \<Rightarrow> SpinnerOptions \<Rightarrow> state \<Rightarrow> outcome" where
  "new_TTYSpinner x i logger lvl opts =
     block
       [assign (\<lambda>s. s\<lparr>spinners := (spinners s)(i :=
                  \<lparr>sp_prefix = (case opt_prefix opts of None \<Rightarrow> PrefixUndefined | Some p \<Rightarrow> PrefixText p),
                   sp_text = [], iconIndex = 0, icon = NoIcon, sp_logger = logger, sp_level = lvl,
                   started = None, stopped = None, spinnerOptions = opts\<rparr>)\<rparr>),
        assign (setText i (opt_text opts)),
        assign (set_icon i
                  (Frames (js_split (case runningIcon opts of Some r \<Rightarrow> r | None \<Rightarrow> DEFAULT_TTY_SPINNER)
                             (ascii ''||'')))),
        start x i]"

definition logMethod_spin :: "ext \<Rightarrow> nat \<Rightarrow> logger_ref \<Rightarrow> LogLevel \<Rightarrow> jsstring \<Rightarrow> SpinnerOptions \<Rightarrow> state \<Rightarrow> outcome" where
  "logMethod_spin x i logger lvl message opts =
     block [new_TTYSpinner x i logger lvl (opts\<lparr>opt_text := message\<rparr>), start x i]"

subsection \<open>What the host does\<close>

text \<open>
  An interval timer that is set fires its callback; the terminal changes its width and
  calls \<open>handleTerminalResize\<close> once per registration; the clock moves; the stream
  breaks or recovers; the program enables or disables a logger, opens a handle on a fresh
  reference, calls a method of a handle or logs a line.
\<close>

definition timer_callback_run :: "ext \<Rightarrow> timer_callback \<Rightarrow> state \<Rightarrow> outcome" where
  "timer_callback_run x cb =
     (case cb of
        SpinThenRefresh \<Rightarrow>
          block [(\<lambda>s. forEach (runningSpinners s) (\<lambda>sp. assign (spin sp)) s), refreshTTY x]
      | RefreshOnly \<Rightarrow> refreshTTY x)"

datatype event =
    TimerFires nat
  | Resized nat
  | ClockReads int
  | CallStart nat
  | CallUpdate nat jsstring
  | CallSuccess nat "jsstring option"
  | CallFail nat "jsstring option"
  | CallStop nat
  | CallLog logger_ref LogLevel "jsstring list"
  | CallSpin nat logger_ref LogLevel jsstring SpinnerOptions
  | SetEnabled logger_ref bool
  | StreamFault "thrown option"

definition step :: "ext \<Rightarrow> event \<Rightarrow> state \<Rightarrow> outcome" where
  "step x ev s =
     (case ev of
        TimerFires h \<Rightarrow>
          (case filter (\<lambda>e. fst e = h) (timers s) of
             [] \<Rightarrow> Normal s
           | e # _ \<Rightarrow> timer_callback_run x (snd (snd e)) s)
      | Resized w \<Rightarrow>
          forEach [0 ..< resizeListeners s] (\<lambda>_. handleTerminalResize x) (s\<lparr>columns := w\<rparr>)
      | ClockReads t \<Rightarrow> Normal (s\<lparr>clock := t\<rparr>)
      | CallStart i \<Rightarrow> start x i s
      | CallUpdate i txt \<Rightarrow> update i txt s
      | CallSuccess i txt \<Rightarrow> success x i txt s
      | CallFail i txt \<Rightarrow> fail x i txt s
      | CallStop i \<Rightarrow> stop x i s
      | CallLog logger lvl args \<Rightarrow> logger_log x logger lvl args s
      | CallSpin i logger lvl message opts \<Rightarrow> logMethod_spin x i logger lvl message opts s
      | SetEnabled logger b \<Rightarrow>
          Normal (s\<lparr>loggers := (loggers s)(logger := (loggers s logger)\<lparr>options :=
                    (options (loggers s logger))\<lparr>enabled := b\<rparr>\<rparr>)\<rparr>)
      | StreamFault f \<Rightarrow> Normal (s\<lparr>stdOutFault := f\<rparr>))"

fun run :: "ext \<Rightarrow> event list \<Rightarrow> state \<Rightarrow> outcome" where
  "run x [] s = Normal s"
| "run x (ev # evs) s = andThen (step x ev s) (run x evs)"

section \<open>Notions used in the statements\<close>

text \<open>
  The terminal operations that erase \<open>height\<close> rows, as \<open>clearTTY\<close> issues them; the
  renderings of the running handles in registration order; the string one redraw writes.
\<close>

definition row_ops :: "nat \<Rightarrow> tty_op list" where
  "row_ops index = (if 0 < index then [MoveCursor 0 (- 1)] else []) @ [ClearLine 1]"

definition clear_ops :: "nat \<Rightarrow> tty_op list" where
  "clear_ops height = CursorTo 0 # concat (map row_ops [0 ..< height])"

definition renderings :: "ext \<Rightarrow> state \<Rightarrow> jsstring list" where
  "renderings x s = map (\<lambda>i. toString x s i None) (runningSpinners s)"

definition frame :: "ext \<Rightarrow> state \<Rightarrow> jsstring" where
  "frame x s = js_join (EOL x) (newBuffered s @ renderings x s)"

text \<open>
  A property of states that a call keeps whether it returns or throws (\<open>preserves\<close>),
  and one that a call keeps and that makes the call return (\<open>keeps\<close>).
\<close>

definition preserves :: "(state \<Rightarrow> bool) \<Rightarrow> (state \<Rightarrow> outcome) \<Rightarrow> bool" where
  "preserves I f = (\<forall>s. I s \<longrightarrow> I (final_state (f s)))"

definition keeps :: "(state \<Rightarrow> bool) \<Rightarrow> (state \<Rightarrow> outcome) \<Rightarrow> bool" where
  "keeps I f = (\<forall>s. I s \<longrightarrow> returns (f s) \<and> I (final_state (f s)))"

text \<open>
  The buffer holds no tab; the multiplexer is idle and the terminal has received exactly
  \<open>ops\<close>; the handle objects and the live set are the given ones; everything but the
  fields of the handle \<open>i\<close> is as in \<open>s0\<close>, and the handle \<open>i\<close> was never
  started.
\<close>

definition no_tab_buffer :: "state \<Rightarrow> bool" where
  "no_tab_buffer s = (\<forall>b \<in> set (newBuffered s). TAB \<notin> set b)"

definition quiet :: "tty_op list \<Rightarrow> state \<Rightarrow> bool" where
  "quiet ops s = (tty s = ops \<and> \<not> isRefreshing s)"

definition handles_are :: "(nat \<Rightarrow> TTYSpinner) \<Rightarrow> nat list \<Rightarrow> state \<Rightarrow> bool" where
  "handles_are objs live s = (spinners s = objs \<and> runningSpinners s = live)"

definition unstarted :: "state \<Rightarrow> nat \<Rightarrow> state \<Rightarrow> bool" where
  "unstarted s0 i s =
     (s\<lparr>spinners := spinners s0\<rparr> = s0
      \<and> (\<forall>j. j \<noteq> i \<longrightarrow> spinners s j = spinners s0 j)
      \<and> started (spinners s i) = None)"

text \<open>
  The handle \<open>i\<close> was started, is stopped and is not in the live set; the state
  \<open>s'\<close> differs from \<open>s\<close> in nothing but the text, the icon and the icon index of
  the handle object \<open>i\<close>.
\<close>

definition finished :: "nat \<Rightarrow> state \<Rightarrow> bool" where
  "finished i s =
     (started (spinners s i) \<noteq> None \<and> stopped (spinners s i) \<noteq> None
      \<and> i \<notin> set (runningSpinners s))"

definition touches_only :: "nat \<Rightarrow> state \<Rightarrow> state \<Rightarrow> bool" where
  "touches_only i s s' =
     (\<exists>a b c. s' = s\<lparr>spinners := (spinners s)(i := (spinners s i)
                          \<lparr>sp_text := a, icon := b, iconIndex := c\<rparr>)\<rparr>)"

text \<open>
  Kinds of events: the calls that start a handle; the terminal calls of the handle
  \<open>i\<close>; the call that builds a new object at the reference \<open>i\<close>; the events that
  leave the stream working and the terminal at least one column wide.
\<close>

definition starts :: "event \<Rightarrow> bool" where
  "starts ev = (case ev of CallStart i \<Rightarrow> True | CallSpin i l lv m opts \<Rightarrow> True | _ \<Rightarrow> False)"

definition is_terminal_call :: "nat \<Rightarrow> event \<Rightarrow> bool" where
  "is_terminal_call i ev =
     (case ev of
        CallStop j \<Rightarrow> j = i
      | CallSuccess j u \<Rightarrow> j = i
      | CallFail j u \<Rightarrow> j = i
      | _ \<Rightarrow> False)"

definition creates :: "nat \<Rightarrow> event \<Rightarrow> bool" where
  "creates i ev = (case ev of CallSpin j l lv m opts \<Rightarrow> j = i | _ \<Rightarrow> False)"

definition admitted :: "event \<Rightarrow> bool" where
  "admitted ev = (case ev of StreamFault f \<Rightarrow> f = None | Resized w \<Rightarrow> 0 < w | _ \<Rightarrow> True)"

text \<open>
  The state after a sequence of events, each one taking place in the state the one
  before left, whether its call returned or threw.
\<close>

definition after :: "ext \<Rightarrow> event list \<Rightarrow> state \<Rightarrow> state" where
  "after x evs s = foldl (\<lambda>s ev. final_state (step x ev s)) s evs"

text \<open>
  A call ignores the text of the handle \<open>i\<close> if, from a state in which this handle is
  finished, it has the same outcome whatever the text is, the text apart, and leaves the
  handle finished. The events that assign the text of the handle \<open>i\<close>.
\<close>

definition map_outcome :: "(state \<Rightarrow> state) \<Rightarrow> outcome \<Rightarrow> outcome" where
  "map_outcome g r = (case r of Normal s \<Rightarrow> Normal (g s) | Throw e s \<Rightarrow> Throw e (g s))"

definition ignores_text :: "nat \<Rightarrow> (state \<Rightarrow> outcome) \<Rightarrow> bool" where
  "ignores_text i f =
     (\<forall>s v. finished i s \<longrightarrow>
        f (setText i v s) = map_outcome (setText i v) (f s) \<and> finished i (final_state (f s)))"

definition writes_text :: "nat \<Rightarrow> event \<Rightarrow> bool" where
  "writes_text i ev =
     (case ev of
        CallUpdate j u \<Rightarrow> j = i
      | CallSuccess j u \<Rightarrow> j = i \<and> u \<noteq> None
      | CallFail j u \<Rightarrow> j = i \<and> u \<noteq> None
      | _ \<Rightarrow> False)"

subsection \<open>The rows of a frame\<close>

text \<open>
  \<open>handle_rows\<close>: the rows that the renderings of the live handles take at the current
  width. \<open>stream_ok\<close>: the operations of the stream do not throw, the terminal is at
  least one column wide, and \<open>handleTerminalResize\<close> is registered once while the
  redraw timers are set and not at all otherwise, which is how \<open>startRefresh\<close> and
  \<open>stopRefreshTTY\<close> leave it. \<open>calm\<close>: the stream, what it received, the stored row
  count and the redraw timer are those of \<open>s0\<close>.
\<close>

definition handle_rows :: "ext \<Rightarrow> state \<Rightarrow> nat" where
  "handle_rows x s = sum_list (map (getContentHeight x (columns s)) (renderings x s))"

definition stream_ok :: "state \<Rightarrow> bool" where
  "stream_ok s =
     (stdOutFault s = None \<and> 0 < columns s
      \<and> resizeListeners s = (if isRefreshing s then 1 else 0))"

definition calm :: "state \<Rightarrow> state \<Rightarrow> bool" where
  "calm s0 s =
     (tty s = tty s0 \<and> currentBufferHeight s = currentBufferHeight s0
      \<and> stdOutFault s = stdOutFault s0 \<and> columns s = columns s0
      \<and> resizeListeners s = resizeListeners s0
      \<and> spinnersRefreshInterval s = spinnersRefreshInterval s0)"

text \<open>
  \<open>redraws x rows s s'\<close>: between \<open>s\<close> and \<open>s'\<close> the terminal received one redraw
  and nothing else: the sequence that hides the cursor if the multiplexer was idle (the
  redraw is the first one of an activation), the operations that erase \<open>rows\<close> rows,
  one write of buffered lines followed by the renderings of the live handles, joined by
  line breaks, and the line break and the sequence that shows the cursor if the
  multiplexer is idle afterwards (the redraw is the last one of a teardown); and the
  stored row count of \<open>s'\<close> is the number of rows these renderings take at the width of
  \<open>s'\<close>.
\<close>

definition redraws :: "ext \<Rightarrow> nat \<Rightarrow> state \<Rightarrow> state \<Rightarrow> bool" where
  "redraws x rows s s' =
     (\<exists>buffered.
        tty s' = tty s @ (if isRefreshing s then [] else [Write CURSOR_HIDE])
                  @ clear_ops rows
                  @ [Write (js_join (EOL x) (buffered @ renderings x s'))]
                  @ (if isRefreshing s' then [] else [Write (EOL x), Write CURSOR_SHOW])
      \<and> currentBufferHeight s' = handle_rows x s')"

text \<open>
  \<open>counts_rows x g evs s\<close> follows the events \<open>evs\<close> from the state \<open>s\<close>, \<open>g\<close>
  being the number of rows that the handle renderings of the last redraw took when they
  were written. It holds if at every event the stored row count is \<open>g\<close>, and the event
  either sends nothing to the terminal, or sends one redraw whose erase clears exactly
  \<open>g\<close> rows, after which \<open>g\<close> is the number of rows of the handle renderings just
  written. The redraw of a resize erases the rows that the renderings of the live
  handles take at the new width instead.
\<close>

fun counts_rows :: "ext \<Rightarrow> nat \<Rightarrow> event list \<Rightarrow> state \<Rightarrow> bool" where
  "counts_rows x g [] s = (currentBufferHeight s = g)"
| "counts_rows x g (ev # evs) s =
     (currentBufferHeight s = g
      \<and> (let s' = final_state (step x ev s)
         in if tty s' = tty s then counts_rows x g evs s'
            else redraws x (case ev of Resized w \<Rightarrow> handle_rows x s' | _ \<Rightarrow> g) s s'
                 \<and> counts_rows x (handle_rows x s') evs s'))"

subsection \<open>Sample collaborators and states\<close>

text \<open>
  Collaborators for strings without escape sequences on a platform whose line break is
  the line feed, with empty prefixes. \<open>idle0\<close> is the state of the freshly loaded module
  on a terminal of 80 columns with default logger options, every handle object being a
  fresh handle with the two-frame icon \<open>-||+\<close>; \<open>active0\<close> is \<open>idle0\<close> after
  \<open>start\<close> of the handle 0, \<open>noted0\<close> is \<open>active0\<close> after one logged line;
  \<open>disabled0\<close> has every logger disabled; the \<open>broken\<close> states have a stream whose
  operations throw; \<open>braille0\<close> is \<open>active0\<close> after a second handle with the
  default icon was opened.
\<close>

definition ext0 :: ext where
  "ext0 = \<lparr>stripVTControlCharacters = (\<lambda>s. s), EOL = [LF],
           getPrefix = (\<lambda>lgs l lvl. []), getDatePrefix = (\<lambda>t. []), getDurationPrefix = (\<lambda>d. []),
           inWebWorker = False, stackDisplay = []\<rparr>"

definition options0 :: LoggerOptions where
  "options0 = \<lparr>enabled = True, stack = False, date = False, duration = False, level = None,
               pad = True, color = True, uid = False\<rparr>"

definition spinner0 :: TTYSpinner where
  "spinner0 =
     \<lparr>sp_prefix = PrefixUndefined, sp_text = ascii ''Building'', iconIndex = 0,
      icon = Frames [ascii ''-'', ascii ''+''], sp_logger = RootLogger, sp_level = info,
      started = None, stopped = None,
      spinnerOptions = \<lparr>opt_text = ascii ''Building'', opt_prefix = None,
                         runningIcon = Some (ascii ''-||+''), successIcon = Some (ascii ''ok''),
                         failIcon = None, opt_date = False, opt_duration = False\<rparr>\<rparr>"

definition idle0 :: state where
  "idle0 =
     \<lparr>loggers = (\<lambda>_. \<lparr>options = options0, lastLog = None\<rparr>), exclusive = None,
      spinners = (\<lambda>_. spinner0), runningSpinners = [],
      spinnersRefreshInterval = None, ttyRefreshInterval = None,
      newBuffered = [], currentBufferHeight = 0, clock = 0, isTTY = True, columns = 80,
      tty = [], resizeListeners = 0, stdOutFault = None, timers = [], nextTimer = 0,
      console = [], consoleFault = (\<lambda>_. None), LLOGGER_ENABLED = None\<rparr>"

definition active0 :: state where
  "active0 =
     idle0\<lparr>spinners := (\<lambda>_. spinner0)(0 := spinner0\<lparr>started := Some 0\<rparr>),
            runningSpinners := [0],
            spinnersRefreshInterval := Some 0, ttyRefreshInterval := Some 1,
            currentBufferHeight := 1,
            tty := [Write CURSOR_HIDE, CursorTo 0, Write (ascii '' - Building'')],
            resizeListeners := 1,
            timers := [(0, 80, SpinThenRefresh), (1, 80, RefreshOnly)], nextTimer := 2\<rparr>"

definition noted0 :: state where
  "noted0 = active0\<lparr>newBuffered := [ascii ''note'']\<rparr>"

definition disabled0 :: state where
  "disabled0 = idle0\<lparr>loggers := (\<lambda>_. \<lparr>options = options0\<lparr>enabled := False\<rparr>, lastLog = None\<rparr>)\<rparr>"

definition broken_idle0 :: state where
  "broken_idle0 = idle0\<lparr>stdOutFault := Some (ErrorObject (ascii ''EIO''))\<rparr>"

definition broken_active0 :: state where
  "broken_active0 = active0\<lparr>stdOutFault := Some (ErrorObject (ascii ''EIO''))\<rparr>"

definition braille0 :: state where
  "braille0 = final_state (logMethod_spin ext0 2 RootLogger info (ascii ''Testing'')
      \<lparr>opt_text = [], opt_prefix = None, runningIcon = None, successIcon = None, failIcon = None,
       opt_date = False, opt_duration = False\<rparr> active0)"

section \<open>Strings\<close>

lemma js_join_Cons: "js_join sep (a # as) = (if as = [] then a else a @ sep @ js_join sep as)"
  by (cases as) simp_all

lemma split_from_not_Nil: "split_from sep k cur str \<noteq> []"
  by (induction str arbitrary: k cur) simp_all

lemma split_from_single_join:
  "js_join [t] (split_from [t] 0 cur str) = cur @ str"
  by (induction str arbitrary: cur) (simp_all add: js_join_Cons split_from_not_Nil)

lemma split_from_single_free:
  "t \<notin> set cur \<Longrightarrow> \<forall>seg \<in> set (split_from [t] 0 cur str). t \<notin> set seg"
proof (induction str arbitrary: cur)
  case Nil
  then show ?case by simp
next
  case (Cons c str)
  have "\<forall>seg \<in> set (split_from [t] 0 [] str). t \<notin> set seg"
    by (rule Cons.IH) simp
  moreover have "c \<noteq> t \<Longrightarrow> \<forall>seg \<in> set (split_from [t] 0 (cur @ [c]) str). t \<notin> set seg"
    by (rule Cons.IH) (use Cons.prems in simp)
  ultimately show ?case
    using Cons.prems by simp
qed

lemma foldl_add_sum_list:
  "foldl (\<lambda>h a. h + f a) (n::nat) as = n + sum_list (map f as)"
  by (induction as arbitrary: n) simp_all

lemma sum_list_ge_one:
  "as \<noteq> [] \<Longrightarrow> (\<And>a. 1 \<le> f a) \<Longrightarrow> (1::nat) \<le> sum_list (map f as)"
  by (cases as) (simp_all add: add_increasing2)

lemma replaceAll_from_single:
  "replaceAll_from [t] rep 0 str = concat (map (\<lambda>c. if c = t then rep else [c]) str)"
  by (induction str) simp_all

lemma replaceAll_single:
  "replaceAll str [t] rep = concat (map (\<lambda>c. if c = t then rep else [c]) str)"
  by (simp add: replaceAll_def replaceAll_from_single)

lemma tabbed_no_TAB: "TAB \<notin> set (replaceAll str [TAB] [SPACE, SPACE, SPACE])"
  by (auto simp: replaceAll_single TAB_def SPACE_def)

section \<open>The height estimator\<close>

lemma getContentHeight_sum:
  "getContentHeight x width str =
     (\<Sum>seg\<leftarrow>js_split (stripVTControlCharacters x str) [LF].
        max 1 (nat \<lceil>real (length seg) / real width\<rceil>))"
  by (simp add: getContentHeight_def foldl_add_sum_list)

text \<open>
  C4. For every string and every width of at least 1, \<open>getContentHeight\<close> strips the
  control sequences, cuts the result at the line feeds (the segments, joined by line
  feeds, give the stripped string back, and no segment holds a line feed), and returns the
  sum over the segments of \<open>max 1 (ceil (length / width))\<close>; the result is at least 1,
  also for the empty string.
\<close>

theorem getContentHeight_rows:
  assumes "1 \<le> width"
  shows "js_join [LF] (js_split (stripVTControlCharacters x str) [LF]) = stripVTControlCharacters x str
       \<and> (\<forall>seg \<in> set (js_split (stripVTControlCharacters x str) [LF]). LF \<notin> set seg)
       \<and> getContentHeight x width str =
           (\<Sum>seg\<leftarrow>js_split (stripVTControlCharacters x str) [LF].
              max 1 (nat \<lceil>real (length seg) / real width\<rceil>))
       \<and> 1 \<le> getContentHeight x width str"
proof -
  let ?segs = "js_split (stripVTControlCharacters x str) [LF]"
  have segs: "?segs = split_from [LF] 0 [] (stripVTControlCharacters x str)"
    by (simp add: js_split_def)
  have "js_join [LF] ?segs = stripVTControlCharacters x str"
    using split_from_single_join [of LF "[]"] by (simp add: segs)
  moreover have "\<forall>seg \<in> set ?segs. LF \<notin> set seg"
    using split_from_single_free [of LF "[]"] by (simp add: segs)
  moreover have "1 \<le> getContentHeight x width str"
    unfolding getContentHeight_sum segs
    by (rule sum_list_ge_one) (simp_all add: split_from_not_Nil)
  ultimately show ?thesis
    by (simp add: getContentHeight_sum)
qed

theorem getContentHeight_rows_witness:
  "(1::nat) \<le> 3
   \<and> js_split (stripVTControlCharacters ext0 (ascii ''abcd'' @ [LF] @ ascii ''e'')) [LF]
       = [ascii ''abcd'', ascii ''e'']
   \<and> getContentHeight ext0 3 (ascii ''abcd'' @ [LF] @ ascii ''e'') = 3
   \<and> getContentHeight ext0 3 [] = 1"
  using getContentHeight_rows [of 3 ext0 "ascii ''abcd'' @ [LF] @ ascii ''e''"]
  by (simp add: getContentHeight_def ext0_def js_split_def ascii_def LF_def)

section \<open>Outcomes\<close>

lemma andThen_simps [simp]:
  "andThen (Normal s) f = f s"
  "andThen (Throw e s) f = Throw e s"
  by (simp_all add: andThen_def)

lemma assign_simp [simp]: "assign f s = Normal (f s)"
  by (simp add: assign_def)

lemma final_state_simps [simp]:
  "final_state (Normal s) = s"
  "final_state (Throw e s) = s"
  by (simp_all add: final_state_def)

lemma returns_simps [simp]:
  "returns (Normal s) = True"
  "returns (Throw e s) = False"
  by (simp_all add: returns_def)

lemma preservesI: "(\<And>s. I s \<Longrightarrow> I (final_state (f s))) \<Longrightarrow> preserves I f"
  by (simp add: preserves_def)

lemma preservesD: "preserves I f \<Longrightarrow> I s \<Longrightarrow> I (final_state (f s))"
  by (simp add: preserves_def)

lemma preserves_andThen:
  "preserves I f \<Longrightarrow> preserves I g \<Longrightarrow> preserves I (\<lambda>s. andThen (f s) g)"
proof (rule preservesI)
  fix s
  assume f: "preserves I f" and g: "preserves I g" and "I s"
  then have "I (final_state (f s))" by (simp add: preservesD)
  then show "I (final_state (andThen (f s) g))"
    using g by (cases "f s") (simp_all add: preservesD)
qed

lemma preserves_block_Nil: "preserves I (block [])"
  by (simp add: preserves_def)

lemma preserves_block_Cons:
  "preserves I f \<Longrightarrow> preserves I (block fs) \<Longrightarrow> preserves I (block (f # fs))"
  using preserves_andThen [of I f "block fs"] by (simp add: preserves_def)

lemma preserves_forEach:
  "(\<And>a. preserves I (body a)) \<Longrightarrow> preserves I (\<lambda>s. forEach (as s) body s)"
proof -
  assume body: "\<And>a. preserves I (body a)"
  have "preserves I (forEach bs body)" for bs
  proof (induction bs)
    case Nil
    show ?case by (simp add: preserves_def)
  next
    case (Cons a bs)
    have "preserves I (\<lambda>s. andThen (body a s) (forEach bs body))"
      by (rule preserves_andThen) (simp_all add: Cons body)
    then show ?case by (simp add: preserves_def)
  qed
  then show ?thesis by (simp add: preserves_def)
qed

lemma preserves_assign: "(\<And>s. I s \<Longrightarrow> I (g s)) \<Longrightarrow> preserves I (assign g)"
  by (simp add: preserves_def)

lemma preserves_Normal: "preserves I Normal"
  by (simp add: preserves_def)

lemma preserves_if:
  "preserves I f \<Longrightarrow> preserves I g \<Longrightarrow> preserves I (\<lambda>s. if c s then f s else g s)"
  by (simp add: preserves_def)

lemma preserves_stdOut_op:
  "(\<And>s. I s \<Longrightarrow> I (s\<lparr>tty := tty s @ [c]\<rparr>)) \<Longrightarrow> preserves I (stdOut_op c)"
  by (simp add: preserves_def stdOut_op_def split: option.splits)

lemma preserves_console_call:
  "(\<And>s. I s \<Longrightarrow> I (s\<lparr>console := console s @ [(m, args)]\<rparr>)) \<Longrightarrow> preserves I (console_call m args)"
  by (simp add: preserves_def console_call_def split: option.splits)

lemmas preserves_intros =
  preserves_block_Cons preserves_block_Nil preserves_forEach preserves_if preserves_Normal preserves_assign

section \<open>Runs on a working stream\<close>

lemma stdOut_op_ok: "stdOutFault s = None \<Longrightarrow> stdOut_op c s = Normal (s\<lparr>tty := tty s @ [c]\<rparr>)"
  by (simp add: stdOut_op_def)

lemma stdOut_ok:
  assumes "stdOutFault s = None"
  shows "stdOut_write str s = Normal (s\<lparr>tty := tty s @ [Write str]\<rparr>)"
    and "stdOut_cursorTo col s = Normal (s\<lparr>tty := tty s @ [CursorTo col]\<rparr>)"
    and "stdOut_moveCursor dx dy s = Normal (s\<lparr>tty := tty s @ [MoveCursor dx dy]\<rparr>)"
    and "stdOut_clearLine dir s = Normal (s\<lparr>tty := tty s @ [ClearLine dir]\<rparr>)"
  using assms
  by (simp_all add: stdOut_write_def stdOut_cursorTo_def stdOut_moveCursor_def stdOut_clearLine_def
        stdOut_op_ok)

lemma clear_rows_ok:
  "stdOutFault s = None \<Longrightarrow>
   forEach rows (\<lambda>index. block
                   [(\<lambda>s. if 0 < index then stdOut_moveCursor 0 (- 1) s else Normal s),
                    stdOut_clearLine 1]) s
   = Normal (s\<lparr>tty := tty s @ concat (map row_ops rows)\<rparr>)"
  by (induction rows arbitrary: s) (simp_all add: stdOut_ok row_ops_def)

lemma clearTTY_ok:
  "stdOutFault s = None \<Longrightarrow>
   clearTTY s = Normal (s\<lparr>tty := tty s @ clear_ops (currentBufferHeight s), currentBufferHeight := 0\<rparr>)"
  by (simp add: clearTTY_def stdOut_ok clear_rows_ok clear_ops_def)

lemma refreshTTY_idle: "\<not> isRefreshing s \<Longrightarrow> refreshTTY x s = Normal s"
  by (simp add: refreshTTY_def)

lemma refreshTTY_ok:
  "stdOutFault s = None \<Longrightarrow> isRefreshing s \<Longrightarrow>
   refreshTTY x s =
     Normal (s\<lparr>tty := tty s @ clear_ops (currentBufferHeight s) @ [Write (frame x s)],
              currentBufferHeight := sum_list (map (getContentHeight x (columns s)) (renderings x s)),
              newBuffered := []\<rparr>)"
  by (simp add: refreshTTY_def clearTTY_ok isRefreshing_def stdOut_ok
        foldl_add_sum_list frame_def renderings_def toString_def)

section \<open>The buffer holds no tab\<close>

lemma ntb_stdOut:
  "preserves no_tab_buffer (stdOut_write str)"
  "preserves no_tab_buffer (stdOut_cursorTo col)"
  "preserves no_tab_buffer (stdOut_moveCursor dx dy)"
  "preserves no_tab_buffer (stdOut_clearLine dir)"
  unfolding stdOut_write_def stdOut_cursorTo_def stdOut_moveCursor_def stdOut_clearLine_def
  by (rule preserves_stdOut_op, simp add: no_tab_buffer_def)+

lemma ntb_addContentToBuffer: "no_tab_buffer s \<Longrightarrow> no_tab_buffer (addContentToBuffer str s)"
  by (simp add: no_tab_buffer_def addContentToBuffer_def tabbed_no_TAB)

lemma ntb_clearTTY: "preserves no_tab_buffer clearTTY"
  unfolding clearTTY_def
  by (intro preserves_intros ntb_stdOut) (simp add: no_tab_buffer_def)

lemma ntb_refreshTTY: "preserves no_tab_buffer (refreshTTY x)"
  unfolding refreshTTY_def [abs_def]
  apply (intro preserves_intros ntb_clearTTY)
   apply (rule preservesI)
   apply (simp add: Let_def stdOut_write_def stdOut_op_def no_tab_buffer_def split: option.splits)
  apply (simp add: no_tab_buffer_def)
  done

lemma ntb_handleTerminalResize: "preserves no_tab_buffer (handleTerminalResize x)"
  unfolding handleTerminalResize_def
  by (intro preserves_intros ntb_refreshTTY) (simp_all add: no_tab_buffer_def)

lemma ntb_startRefresh: "preserves no_tab_buffer (startRefresh x)"
  unfolding startRefresh_def [abs_def]
  by (intro preserves_intros ntb_refreshTTY ntb_stdOut)
     (simp_all add: no_tab_buffer_def stdOut_on_resize_def setInterval_def)

lemma ntb_stopRefreshTTY: "preserves no_tab_buffer (stopRefreshTTY x)"
  unfolding stopRefreshTTY_def [abs_def]
  by (intro preserves_intros ntb_refreshTTY ntb_stdOut)
     (simp_all add: no_tab_buffer_def stdOut_off_resize_def clearInterval_def split: option.splits)


lemma preserves_forEach_list:
  "(\<And>a. preserves I (body a)) \<Longrightarrow> preserves I (forEach as body)"
  using preserves_forEach [of I body "\<lambda>_. as"] by (simp add: preserves_def)

lemma isRefreshing_setLastLog [simp]: "isRefreshing (setLastLog l t s) = isRefreshing s"
  by (simp add: isRefreshing_def setLastLog_def)

lemma preserves_outputLog_try:
  assumes log: "\<And>s l t. I s \<Longrightarrow> I (setLastLog l t s)"
    and con: "\<And>s m as. I s \<Longrightarrow> I (s\<lparr>console := console s @ [(m, as)]\<rparr>)"
    and buf: "\<And>s str. I s \<Longrightarrow> isRefreshing s \<Longrightarrow> I (addContentToBuffer str s)"
  shows "preserves I (outputLog_try x lvl args logger override)"
proof (rule preservesI)
  fix s
  assume I: "I s"
  have calls: "I (final_state (forEach ms (\<lambda>m. console_call m args) s'))" if "I s'" for ms args s'
  proof -
    have "preserves I (forEach ms (\<lambda>m. console_call m args))"
      by (rule preserves_forEach_list) (rule preserves_console_call, rule con)
    then show ?thesis using that by (simp add: preserves_def)
  qed
  have I1: "I (setLastLog logger (clock s) s)"
    by (rule log) (rule I)
  have I2: "I (setLastLog logger (clock s) (setLastLog logger (clock s) s))"
    by (rule log) (rule I1)
  show "I (final_state (outputLog_try x lvl args logger override s))"
    unfolding outputLog_try_def Let_def
    by (simp add: I I1 I2 calls buf)
qed

lemma preserves_outputLog:
  assumes log: "\<And>s l t. I s \<Longrightarrow> I (setLastLog l t s)"
    and con: "\<And>s m as. I s \<Longrightarrow> I (s\<lparr>console := console s @ [(m, as)]\<rparr>)"
    and buf: "\<And>s str. I s \<Longrightarrow> isRefreshing s \<Longrightarrow> I (addContentToBuffer str s)"
  shows "preserves I (outputLog x lvl args logger override)"
proof (rule preservesI)
  fix s
  assume "I s"
  moreover have "preserves I (outputLog_try x lvl args logger override)"
    by (rule preserves_outputLog_try) (fact log con buf)+
  ultimately have tr: "I (final_state (outputLog_try x lvl args logger override s))"
    by (simp add: preserves_def)
  show "I (final_state (outputLog x lvl args logger override s))"
  proof (cases "outputLog_try x lvl args logger override s")
    case (Normal s')
    then show ?thesis using tr by (simp add: outputLog_def)
  next
    case (Throw e s')
    then have "I s'" using tr by simp
    moreover have "preserves I (console_call console_error [thrown_text e])"
      by (rule preserves_console_call) (rule con)
    ultimately have "I (final_state (console_call console_error [thrown_text e] s'))"
      by (simp add: preserves_def)
    then show ?thesis using Throw by (simp add: outputLog_def)
  qed
qed

lemma ntb_outputLog: "preserves no_tab_buffer (outputLog x lvl args logger override)"
  by (rule preserves_outputLog)
     (simp_all add: no_tab_buffer_def setLastLog_def ntb_addContentToBuffer [unfolded no_tab_buffer_def])

lemma ntb_logger_log: "preserves no_tab_buffer (logger_log x logger lvl args)"
  unfolding logger_log_def by (rule ntb_outputLog)


lemma preserves_logger_log_dep:
  "\<forall>l lv as. preserves I (logger_log x l lv as) \<Longrightarrow>
   preserves I (\<lambda>s. logger_log x (l s) (lv s) (as s) s)"
  by (simp add: preserves_def)

lemma ntb_start: "preserves no_tab_buffer (start x i)"
  unfolding start_def [abs_def]
  by (intro preserves_intros preserves_logger_log_dep ntb_startRefresh)
     (simp_all add: ntb_logger_log, simp_all add: no_tab_buffer_def runningSpinners_add_def)

lemma ntb_stop: "preserves no_tab_buffer (stop x i)"
  unfolding stop_def [abs_def]
  by (intro preserves_intros preserves_logger_log_dep ntb_stopRefreshTTY)
     (simp_all add: ntb_logger_log ntb_addContentToBuffer,
      simp_all add: no_tab_buffer_def runningSpinners_delete_def)

lemma ntb_success: "preserves no_tab_buffer (success x i txt)"
  unfolding success_def
  by (intro preserves_intros ntb_stop)
     (simp_all add: no_tab_buffer_def setText_def set_icon_def split: option.splits)

lemma ntb_fail: "preserves no_tab_buffer (fail x i txt)"
  unfolding fail_def
  by (intro preserves_intros ntb_stop)
     (simp_all add: no_tab_buffer_def setText_def set_icon_def split: option.splits)

lemma ntb_new_TTYSpinner: "preserves no_tab_buffer (new_TTYSpinner x i logger lvl opts)"
  unfolding new_TTYSpinner_def
  by (intro preserves_intros ntb_start)
     (simp_all add: no_tab_buffer_def setText_def set_icon_def)

lemma ntb_logMethod_spin: "preserves no_tab_buffer (logMethod_spin x i logger lvl message opts)"
  unfolding logMethod_spin_def
  by (intro preserves_intros ntb_start ntb_new_TTYSpinner)

lemma ntb_timer_callback_run: "preserves no_tab_buffer (timer_callback_run x cb)"
  unfolding timer_callback_run_def
  by (cases cb; simp; intro preserves_intros ntb_refreshTTY)
     (simp_all add: no_tab_buffer_def spin_def Let_def)

lemma preserves_step:
  assumes "\<And>cb. preserves I (timer_callback_run x cb)"
    and "preserves I (handleTerminalResize x)"
    and "\<And>s w. I s \<Longrightarrow> I (s\<lparr>columns := w\<rparr>)"
    and "\<And>s t. I s \<Longrightarrow> I (s\<lparr>clock := t\<rparr>)"
    and "\<And>i. ev = CallStart i \<Longrightarrow> preserves I (start x i)"
    and "\<And>i u. preserves I (update i u)"
    and "\<And>i u. preserves I (success x i u)"
    and "\<And>i u. preserves I (fail x i u)"
    and "\<And>i. preserves I (stop x i)"
    and "\<And>l lv args. preserves I (logger_log x l lv args)"
    and "\<And>i l lv m opts. ev = CallSpin i l lv m opts \<Longrightarrow> preserves I (logMethod_spin x i l lv m opts)"
    and "\<And>s l b. I s \<Longrightarrow> I (s\<lparr>loggers := (loggers s)(l := (loggers s l)\<lparr>options :=
                    (options (loggers s l))\<lparr>enabled := b\<rparr>\<rparr>)\<rparr>)"
    and "\<And>s f. ev = StreamFault f \<Longrightarrow> I s \<Longrightarrow> I (s\<lparr>stdOutFault := f\<rparr>)"
  shows "preserves I (step x ev)"
proof (cases ev)
  case (TimerFires h)
  show ?thesis
  proof (rule preservesI)
    fix s assume "I s"
    then show "I (final_state (step x ev s))"
      using assms(1) by (simp add: TimerFires step_def preserves_def split: list.splits)
  qed
next
  case (Resized w)
  have loop: "preserves I (forEach ixs (\<lambda>_. handleTerminalResize x))" for ixs
    by (rule preserves_forEach_list) (rule assms(2))
  show ?thesis
  proof (rule preservesI)
    fix s assume "I s"
    then have "I (s\<lparr>columns := w\<rparr>)" by (rule assms(3))
    then have "I (final_state (forEach [0 ..< resizeListeners s] (\<lambda>_. handleTerminalResize x)
                 (s\<lparr>columns := w\<rparr>)))"
      by (rule preservesD [OF loop])
    then show "I (final_state (step x ev s))"
      by (simp add: Resized step_def)
  qed
next
  case (ClockReads t)
  then show ?thesis using assms(4) by (simp add: step_def preserves_def)
next
  case (CallStart i)
  then show ?thesis using assms(5) [of i] by (simp add: step_def preserves_def)
next
  case (CallUpdate i u)
  then show ?thesis using assms(6) [of i u] by (simp add: step_def preserves_def)
next
  case (CallSuccess i u)
  then show ?thesis using assms(7) [of i u] by (simp add: step_def preserves_def)
next
  case (CallFail i u)
  then show ?thesis using assms(8) [of i u] by (simp add: step_def preserves_def)
next
  case (CallStop i)
  then show ?thesis using assms(9) [of i] by (simp add: step_def preserves_def)
next
  case (CallLog l lv args)
  then show ?thesis using assms(10) [of l lv args] by (simp add: step_def preserves_def)
next
  case (CallSpin i l lv m opts)
  then show ?thesis using assms(11) [of i l lv m opts] by (simp add: step_def preserves_def)
next
  case (SetEnabled l b)
  then show ?thesis using assms(12) by (simp add: step_def preserves_def)
next
  case (StreamFault f)
  then show ?thesis using assms(13) by (simp add: step_def preserves_def)
qed

lemma ntb_update: "preserves no_tab_buffer (update i txt)"
  by (simp add: preserves_def update_def setText_def no_tab_buffer_def)

lemma ntb_step: "preserves no_tab_buffer (step x ev)"
  by (rule preserves_step)
     (simp_all add: ntb_timer_callback_run ntb_handleTerminalResize ntb_start ntb_update ntb_success
        ntb_fail ntb_stop ntb_logger_log ntb_logMethod_spin, simp_all add: no_tab_buffer_def)

lemma preserves_run: "(\<And>ev. ev \<in> set evs \<Longrightarrow> preserves I (step x ev)) \<Longrightarrow> preserves I (run x evs)"
proof (induction evs)
  case Nil
  show ?case by (simp add: preserves_def)
next
  case (Cons ev evs)
  have "preserves I (\<lambda>s. andThen (step x ev s) (run x evs))"
    by (rule preserves_andThen) (simp_all add: Cons)
  then show ?case by (simp add: preserves_def)
qed

lemma ntb_run: "preserves no_tab_buffer (run x evs)"
  by (rule preserves_run) (rule ntb_step)

section \<open>The sample states\<close>

lemmas sample_defs = options0_def spinner0_def idle0_def active0_def ext0_def

lemmas model_defs =
  start_def stop_def success_def fail_def update_def setText_def set_icon_def
  runningSpinners_add_def runningSpinners_delete_def startRefresh_def stopRefreshTTY_def
  refreshTTY_def clearTTY_def handleTerminalResize_def isRefreshing_def addContentToBuffer_def
  toString_def TTYSpinner_toString_def getContentHeight_def js_split_def replaceAll_def
  stdOut_write_def stdOut_cursorTo_def stdOut_moveCursor_def stdOut_clearLine_def stdOut_op_def
  stdOut_on_resize_def stdOut_off_resize_def setInterval_def clearInterval_def console_call_def
  logger_log_def outputLog_def outputLog_try_def computeOptions_def setLastLog_def thrown_text_def
  spin_def icon_length_def timer_callback_run_def step_def
  SPINNER_REFRESH_INTERVAL_def TTY_REFRESH_INTERVAL_def

lemma active0_reached: "start ext0 0 idle0 = Normal active0"
  by (simp add: model_defs sample_defs Let_def ascii_def SPACE_def LF_def TAB_def fun_eq_iff)

lemma noted0_reached: "run ext0 [CallLog RootLogger info [ascii ''note'']] active0 = Normal noted0"
  by (simp add: noted0_def model_defs sample_defs Let_def ascii_def SPACE_def LF_def TAB_def)

lemma default_frames:
  "js_split DEFAULT_TTY_SPINNER (ascii ''||'') =
     map (\<lambda>c. ESC # ascii ''[36m'' @ [c] @ ESC # ascii ''[0m'')
       [0x280B, 0x2819, 0x2839, 0x2838, 0x283C, 0x2834, 0x2826, 0x2827, 0x2807, 0x280F]"
  by (simp add: DEFAULT_TTY_SPINNER_def colorize_def STYLES_color_def js_split_def ascii_def
        decimal.simps ESC_def)

lemma default_icons:
  "DEFAULT_TTY_SUCCESS_ICON = ESC # ascii ''[32m'' @ [0x2714] @ ESC # ascii ''[0m''"
  "DEFAULT_TTY_FAIL_ICON = ESC # ascii ''[31m'' @ [0x2716] @ ESC # ascii ''[0m''"
  by (simp_all add: DEFAULT_TTY_SUCCESS_ICON_def DEFAULT_TTY_FAIL_ICON_def colorize_def
        STYLES_color_def ascii_def decimal.simps ESC_def)

lemma braille0_handle:
  "icon (spinners braille0 2) = Frames (js_split DEFAULT_TTY_SPINNER (ascii ''||''))"
  "started (spinners braille0 2) = Some 0" "stopped (spinners braille0 2) = None"
  "iconIndex (spinners braille0 2) = 0" "runningSpinners braille0 = [0, 2]"
  by (simp_all add: braille0_def logMethod_spin_def new_TTYSpinner_def start_def set_icon_def
        setText_def runningSpinners_add_def isRefreshing_def active0_def idle0_def options0_def)

section \<open>The idle multiplexer writes nothing\<close>

lemma quiet_refreshTTY: "preserves (quiet ops) (refreshTTY x)"
  by (rule preservesI) (simp add: quiet_def refreshTTY_idle)

lemma quiet_stopRefreshTTY: "preserves (quiet ops) (stopRefreshTTY x)"
  by (rule preservesI) (simp add: quiet_def stopRefreshTTY_def)

lemma quiet_handleTerminalResize: "preserves (quiet ops) (handleTerminalResize x)"
  unfolding handleTerminalResize_def
  by (intro preserves_intros quiet_refreshTTY) (simp_all add: quiet_def isRefreshing_def)

lemma quiet_timer_callback_run: "preserves (quiet ops) (timer_callback_run x cb)"
  unfolding timer_callback_run_def
  by (cases cb; simp; intro preserves_intros quiet_refreshTTY)
     (simp_all add: quiet_def isRefreshing_def spin_def Let_def)

lemma quiet_logger_log: "preserves (quiet ops) (logger_log x l lv args)"
  unfolding logger_log_def
  by (rule preserves_outputLog) (simp_all add: quiet_def isRefreshing_def setLastLog_def)

lemma quiet_stop: "preserves (quiet ops) (stop x i)"
  unfolding stop_def [abs_def]
  by (intro preserves_intros preserves_logger_log_dep quiet_stopRefreshTTY)
     (simp_all add: quiet_logger_log,
      simp_all add: quiet_def isRefreshing_def runningSpinners_delete_def addContentToBuffer_def)

lemma quiet_success: "preserves (quiet ops) (success x i u)"
  unfolding success_def
  by (intro preserves_intros quiet_stop)
     (simp_all add: quiet_def isRefreshing_def setText_def set_icon_def split: option.splits)

lemma quiet_fail: "preserves (quiet ops) (fail x i u)"
  unfolding fail_def
  by (intro preserves_intros quiet_stop)
     (simp_all add: quiet_def isRefreshing_def setText_def set_icon_def split: option.splits)

lemma quiet_update: "preserves (quiet ops) (update i u)"
  by (simp add: preserves_def update_def setText_def quiet_def isRefreshing_def)

lemma quiet_step: "\<not> starts ev \<Longrightarrow> preserves (quiet ops) (step x ev)"
  by (rule preserves_step)
     (simp_all add: quiet_timer_callback_run quiet_handleTerminalResize quiet_update quiet_success
        quiet_fail quiet_stop quiet_logger_log starts_def, simp_all add: quiet_def isRefreshing_def)

lemma quiet_run: "\<forall>ev \<in> set evs. \<not> starts ev \<Longrightarrow> preserves (quiet ops) (run x evs)"
  by (rule preserves_run) (simp add: quiet_step)

lemma stopRefreshTTY_ok:
  "stdOutFault s = None \<Longrightarrow> isRefreshing s \<Longrightarrow>
   stopRefreshTTY x s =
     Normal (s\<lparr>tty := tty s @ clear_ops (currentBufferHeight s)
                    @ [Write (frame x s), Write (EOL x), Write CURSOR_SHOW],
              resizeListeners := resizeListeners s - 1,
              timers := filter (\<lambda>e. Some (fst e) \<noteq> spinnersRefreshInterval s
                                   \<and> Some (fst e) \<noteq> ttyRefreshInterval s) (timers s),
              spinnersRefreshInterval := None,
              ttyRefreshInterval := None,
              currentBufferHeight := 0,
              newBuffered := []\<rparr>)"
  by (auto simp add: stopRefreshTTY_def refreshTTY_ok stdOut_ok stdOut_off_resize_def
        clearInterval_def isRefreshing_def split: option.splits intro!: filter_cong)


lemma stop_last_ok:
  assumes "stdOutFault s = None" "isRefreshing s" "runningSpinners s = [i]"
    "started (spinners s i) \<noteq> None" "stopped (spinners s i) = None"
  shows "stop x i s =
     Normal (s\<lparr>spinners := (spinners s)(i := (spinners s i)\<lparr>stopped := Some (clock s)\<rparr>),
              runningSpinners := [],
              tty := tty s @ clear_ops (currentBufferHeight s)
                    @ [Write (js_join (EOL x) (newBuffered s @
                         [replaceAll (toString x (s\<lparr>spinners := (spinners s)(i := (spinners s i)
                              \<lparr>stopped := Some (clock s)\<rparr>)\<rparr>) i None) [TAB] [SPACE, SPACE, SPACE]])),
                       Write (EOL x), Write CURSOR_SHOW],
              resizeListeners := resizeListeners s - 1,
              timers := filter (\<lambda>e. Some (fst e) \<noteq> spinnersRefreshInterval s
                                   \<and> Some (fst e) \<noteq> ttyRefreshInterval s) (timers s),
              spinnersRefreshInterval := None,
              ttyRefreshInterval := None,
              currentBufferHeight := 0,
              newBuffered := []\<rparr>)"
  using assms
  by (auto simp add: stop_def runningSpinners_delete_def addContentToBuffer_def stopRefreshTTY_ok
        isRefreshing_def frame_def renderings_def toString_def)

section \<open>Calls that return\<close>

lemma returns_iff: "returns r = (\<exists>s. r = Normal s)"
  by (cases r) simp_all

lemma keepsI: "(\<And>s. I s \<Longrightarrow> \<exists>s'. f s = Normal s' \<and> I s') \<Longrightarrow> keeps I f"
  unfolding keeps_def by (metis final_state_simps(1) returns_simps(1))

lemma keepsD: "keeps I f \<Longrightarrow> I s \<Longrightarrow> \<exists>s'. f s = Normal s' \<and> I s'"
  unfolding keeps_def by (cases "f s") auto

lemma keeps_andThen:
  "keeps I f \<Longrightarrow> keeps I g \<Longrightarrow> keeps I (\<lambda>s. andThen (f s) g)"
proof (rule keepsI)
  fix s
  assume f: "keeps I f" and g: "keeps I g" and "I s"
  then obtain s1 where s1: "f s = Normal s1" "I s1"
    using keepsD by blast
  then obtain s2 where "g s1 = Normal s2" "I s2"
    using g keepsD by blast
  then show "\<exists>s'. andThen (f s) g = Normal s' \<and> I s'"
    using s1 by simp
qed

lemma keeps_block_Nil: "keeps I (block [])"
  by (simp add: keeps_def)

lemma keeps_block_Cons:
  "keeps I f \<Longrightarrow> keeps I (block fs) \<Longrightarrow> keeps I (block (f # fs))"
  using keeps_andThen [of I f "block fs"] by (simp add: keeps_def)

lemma keeps_if:
  "keeps I f \<Longrightarrow> keeps I g \<Longrightarrow> keeps I (\<lambda>s. if c s then f s else g s)"
  by (simp add: keeps_def)

lemma keeps_Normal: "keeps I Normal"
  by (simp add: keeps_def)

lemma keeps_assign: "(\<And>s. I s \<Longrightarrow> I (g s)) \<Longrightarrow> keeps I (assign g)"
  by (simp add: keeps_def)

lemma keeps_run: "(\<And>ev. ev \<in> set evs \<Longrightarrow> keeps I (step x ev)) \<Longrightarrow> keeps I (run x evs)"
proof (induction evs)
  case Nil
  show ?case by (simp add: keeps_def)
next
  case (Cons ev evs)
  have "keeps I (\<lambda>s. andThen (step x ev s) (run x evs))"
    by (rule keeps_andThen) (simp_all add: Cons)
  then show ?case by (simp add: keeps_def)
qed

lemmas keeps_intros = keeps_block_Cons keeps_block_Nil keeps_if keeps_Normal keeps_assign

lemma clear_ops_rows: "length (filter (\<lambda>c. c = ClearLine 1) (clear_ops h)) = h"
proof -
  have "length (filter (\<lambda>c. c = ClearLine 1) (concat (map row_ops rows))) = length rows" for rows
    by (induction rows) (simp_all add: row_ops_def)
  then show ?thesis
    by (simp add: clear_ops_def)
qed

section \<open>Sequences of events\<close>

lemma after_Nil: "after x [] s = s"
  by (simp add: after_def)

lemma after_Cons: "after x (ev # evs) s = after x evs (final_state (step x ev s))"
  by (simp add: after_def)

section \<open>The handles after a stop\<close>

lemma ha_stdOut:
  "preserves (handles_are objs live) (stdOut_write str)"
  "preserves (handles_are objs live) (stdOut_cursorTo col)"
  "preserves (handles_are objs live) (stdOut_moveCursor dx dy)"
  "preserves (handles_are objs live) (stdOut_clearLine dir)"
  unfolding stdOut_write_def stdOut_cursorTo_def stdOut_moveCursor_def stdOut_clearLine_def
  by (rule preserves_stdOut_op, simp add: handles_are_def)+

lemma ha_clearTTY: "preserves (handles_are objs live) clearTTY"
  unfolding clearTTY_def
  by (intro preserves_intros ha_stdOut) (simp add: handles_are_def)

lemma ha_refreshTTY: "preserves (handles_are objs live) (refreshTTY x)"
  unfolding refreshTTY_def [abs_def]
  apply (intro preserves_intros ha_clearTTY)
   apply (rule preservesI)
   apply (simp add: Let_def stdOut_write_def stdOut_op_def handles_are_def split: option.splits)
  apply (simp add: handles_are_def)
  done

lemma ha_stopRefreshTTY: "preserves (handles_are objs live) (stopRefreshTTY x)"
  unfolding stopRefreshTTY_def [abs_def]
  by (intro preserves_intros ha_refreshTTY ha_stdOut)
     (simp_all add: handles_are_def stdOut_off_resize_def clearInterval_def split: option.splits)

lemma ha_logger_log: "preserves (handles_are objs live) (logger_log x l lv args)"
  unfolding logger_log_def
  by (rule preserves_outputLog) (simp_all add: handles_are_def setLastLog_def addContentToBuffer_def)

lemma andThen_block_Nil [simp]: "andThen r (block []) = r"
  by (cases r) simp_all

text \<open>What \<open>stop\<close> leaves of the handles, whether it returns or throws.\<close>

lemma handles_after_stop:
  "handles_are
     (if stopped (spinners s i) = None \<and> started (spinners s i) \<noteq> None
      then (spinners s)(i := (spinners s i)\<lparr>stopped := Some (clock s)\<rparr>) else spinners s)
     (if stopped (spinners s i) = None \<and> started (spinners s i) \<noteq> None
      then filter (\<lambda>j. j \<noteq> i) (runningSpinners s) else runningSpinners s)
     (final_state (stop x i s))"
proof (cases "stopped (spinners s i) = None \<and> started (spinners s i) \<noteq> None")
  case False
  then show ?thesis
    by (auto simp add: stop_def handles_are_def)
next
  case True
  let ?objs = "(spinners s)(i := (spinners s i)\<lparr>stopped := Some (clock s)\<rparr>)"
  let ?live = "filter (\<lambda>j. j \<noteq> i) (runningSpinners s)"
  let ?s3 = "addContentToBuffer (toString x (runningSpinners_delete i (s\<lparr>spinners := ?objs\<rparr>)) i None)
               (runningSpinners_delete i (s\<lparr>spinners := ?objs\<rparr>))"
  let ?rest = "\<lambda>s. if \<not> isRefreshing s
              then logger_log x (sp_logger (spinners s i)) (sp_level (spinners s i))
                     [toString x s i (Some False)] s
              else if runningSpinners s = [] then stopRefreshTTY x s
              else Normal s"
  have "preserves (handles_are ?objs ?live) ?rest"
    by (intro preserves_intros preserves_logger_log_dep ha_stopRefreshTTY)
       (simp add: ha_logger_log)
  moreover have "handles_are ?objs ?live ?s3"
    by (simp add: handles_are_def addContentToBuffer_def runningSpinners_delete_def)
  ultimately have "handles_are ?objs ?live (final_state (?rest ?s3))"
    by (rule preservesD)
  moreover have "stop x i s = ?rest ?s3"
    using True by (simp add: stop_def)
  ultimately show ?thesis
    using True by simp
qed


lemma setText_same: "sp_text (spinners s i) = u \<Longrightarrow> setText i u s = s"
  by (auto simp add: setText_def)

lemma set_icon_same:
  assumes "icon (spinners s i) = ic" "iconIndex (spinners s i) = 0"
  shows "set_icon i ic s = s"
proof -
  have "(spinners s i)\<lparr>icon := ic, iconIndex := 0\<rparr> = spinners s i"
    unfolding assms [symmetric] by simp
  then show ?thesis
    by (simp add: set_icon_def)
qed

lemma success_eq:
  "success x i u s =
     stop x i (set_icon i (Glyph (case successIcon (spinnerOptions (spinners s i)) of
                                    Some ic \<Rightarrow> ic | None \<Rightarrow> DEFAULT_TTY_SUCCESS_ICON))
                 (case u of None \<Rightarrow> s | Some v \<Rightarrow> setText i v s))"
  by (simp add: success_def setText_def set_icon_def split: option.splits)

lemma fail_eq:
  "fail x i u s =
     stop x i (set_icon i (Glyph (case failIcon (spinnerOptions (spinners s i)) of
                                    Some ic \<Rightarrow> ic | None \<Rightarrow> DEFAULT_TTY_FAIL_ICON))
                 (case u of None \<Rightarrow> s | Some v \<Rightarrow> setText i v s))"
  by (simp add: fail_def setText_def set_icon_def split: option.splits)

lemma stop_again_after:
  assumes "s' = final_state (stop x i s)"
  shows "stop x i (s'\<lparr>clock := t\<rparr>) = Normal (s'\<lparr>clock := t\<rparr>)"
    and "sp_text (spinners s' i) = sp_text (spinners s i)"
    and "icon (spinners s' i) = icon (spinners s i)"
    and "iconIndex (spinners s' i) = iconIndex (spinners s i)"
    and "spinnerOptions (spinners s' i) = spinnerOptions (spinners s i)"
  using handles_after_stop [of s i x] assms
  by (auto simp add: stop_def handles_are_def split: if_splits)

lemma success_again:
  assumes "s' = final_state (success x i u s)"
  shows "success x i u (s'\<lparr>clock := t\<rparr>) = Normal (s'\<lparr>clock := t\<rparr>)"
proof -
  let ?g = "Glyph (case successIcon (spinnerOptions (spinners s i)) of
                     Some ic \<Rightarrow> ic | None \<Rightarrow> DEFAULT_TTY_SUCCESS_ICON)"
  let ?sa = "set_icon i ?g (case u of None \<Rightarrow> s | Some v \<Rightarrow> setText i v s)"
  have s': "s' = final_state (stop x i ?sa)"
    using assms by (simp add: success_eq)
  note after = stop_again_after [OF s']
  have opts: "spinnerOptions (spinners s' i) = spinnerOptions (spinners s i)"
    using after(5) by (simp add: set_icon_def setText_def split: option.splits)
  have "(case u of None \<Rightarrow> s'\<lparr>clock := t\<rparr> | Some v \<Rightarrow> setText i v (s'\<lparr>clock := t\<rparr>)) = s'\<lparr>clock := t\<rparr>"
    using after(2) by (auto simp add: set_icon_def setText_def split: option.splits)
  moreover have "set_icon i ?g (s'\<lparr>clock := t\<rparr>) = s'\<lparr>clock := t\<rparr>"
    using after(3,4) by (intro set_icon_same) (simp_all add: set_icon_def)
  ultimately show ?thesis
    using after(1) [of t] opts by (simp add: success_eq [of x i u "s'\<lparr>clock := t\<rparr>"])
qed

lemma fail_again:
  assumes "s' = final_state (fail x i u s)"
  shows "fail x i u (s'\<lparr>clock := t\<rparr>) = Normal (s'\<lparr>clock := t\<rparr>)"
proof -
  let ?g = "Glyph (case failIcon (spinnerOptions (spinners s i)) of
                     Some ic \<Rightarrow> ic | None \<Rightarrow> DEFAULT_TTY_FAIL_ICON)"
  let ?sa = "set_icon i ?g (case u of None \<Rightarrow> s | Some v \<Rightarrow> setText i v s)"
  have s': "s' = final_state (stop x i ?sa)"
    using assms by (simp add: fail_eq)
  note after = stop_again_after [OF s']
  have opts: "spinnerOptions (spinners s' i) = spinnerOptions (spinners s i)"
    using after(5) by (simp add: set_icon_def setText_def split: option.splits)
  have "(case u of None \<Rightarrow> s'\<lparr>clock := t\<rparr> | Some v \<Rightarrow> setText i v (s'\<lparr>clock := t\<rparr>)) = s'\<lparr>clock := t\<rparr>"
    using after(2) by (auto simp add: set_icon_def setText_def split: option.splits)
  moreover have "set_icon i ?g (s'\<lparr>clock := t\<rparr>) = s'\<lparr>clock := t\<rparr>"
    using after(3,4) by (intro set_icon_same) (simp_all add: set_icon_def)
  ultimately show ?thesis
    using after(1) [of t] opts by (simp add: fail_eq [of x i u "s'\<lparr>clock := t\<rparr>"])
qed

lemma not_live_after_stop:
  "i \<notin> set (runningSpinners s) \<or> (started (spinners s i) \<noteq> None \<and> stopped (spinners s i) = None) \<Longrightarrow>
   i \<notin> set (runningSpinners (final_state (stop x i s)))"
  using handles_after_stop [of s i x]
  by (auto simp add: handles_are_def split: if_splits)

lemma renderings_other_text:
  "i \<notin> set (runningSpinners s) \<Longrightarrow> renderings x (setText i u s) = renderings x s"
  by (auto simp add: renderings_def toString_def setText_def)

section \<open>A handle that is not running\<close>

lemma fin_stdOut:
  "preserves (finished i) (stdOut_write str)"
  "preserves (finished i) (stdOut_cursorTo col)"
  "preserves (finished i) (stdOut_moveCursor dx dy)"
  "preserves (finished i) (stdOut_clearLine dir)"
  unfolding stdOut_write_def stdOut_cursorTo_def stdOut_moveCursor_def stdOut_clearLine_def
  by (rule preserves_stdOut_op, simp add: finished_def)+

lemma fin_clearTTY: "preserves (finished i) clearTTY"
  unfolding clearTTY_def
  by (intro preserves_intros fin_stdOut) (simp add: finished_def)

lemma fin_refreshTTY: "preserves (finished i) (refreshTTY x)"
  unfolding refreshTTY_def [abs_def]
  apply (intro preserves_intros fin_clearTTY)
   apply (rule preservesI)
   apply (simp add: Let_def stdOut_write_def stdOut_op_def finished_def split: option.splits)
  apply (simp add: finished_def)
  done

lemma fin_handleTerminalResize: "preserves (finished i) (handleTerminalResize x)"
  unfolding handleTerminalResize_def
  by (intro preserves_intros fin_refreshTTY) (simp_all add: finished_def)

lemma fin_startRefresh: "preserves (finished i) (startRefresh x)"
  unfolding startRefresh_def [abs_def]
  by (intro preserves_intros fin_refreshTTY fin_stdOut)
     (simp_all add: finished_def stdOut_on_resize_def setInterval_def)

lemma fin_stopRefreshTTY: "preserves (finished i) (stopRefreshTTY x)"
  unfolding stopRefreshTTY_def [abs_def]
  by (intro preserves_intros fin_refreshTTY fin_stdOut)
     (simp_all add: finished_def stdOut_off_resize_def clearInterval_def split: option.splits)

lemma fin_logger_log: "preserves (finished i) (logger_log x l lv args)"
  unfolding logger_log_def
  by (rule preserves_outputLog) (simp_all add: finished_def setLastLog_def addContentToBuffer_def)

text \<open>
  \<open>start\<close> and \<open>stop\<close> of the finished handle return at their guards; those of another
  handle leave it alone.
\<close>

lemma fin_start: "preserves (finished i) (start x j)"
proof (cases "j = i")
  case True
  show ?thesis
    by (rule preservesI) (auto simp add: True start_def finished_def)
next
  case False
  show ?thesis
    unfolding start_def [abs_def]
    by (intro preserves_intros preserves_logger_log_dep fin_startRefresh)
       (simp_all add: fin_logger_log,
        auto simp add: finished_def runningSpinners_add_def False False [THEN not_sym])
qed

lemma fin_stop: "preserves (finished i) (stop x j)"
proof (cases "j = i")
  case True
  show ?thesis
    by (rule preservesI) (auto simp add: True stop_def finished_def)
next
  case False
  show ?thesis
    unfolding stop_def [abs_def]
    by (intro preserves_intros preserves_logger_log_dep fin_stopRefreshTTY)
       (simp_all add: fin_logger_log,
        auto simp add: finished_def runningSpinners_delete_def addContentToBuffer_def False
          False [THEN not_sym])
qed

lemma fin_success: "preserves (finished i) (success x j u)"
  unfolding success_def
  by (intro preserves_intros fin_stop)
     (auto simp add: finished_def setText_def set_icon_def split: option.splits)

lemma fin_fail: "preserves (finished i) (fail x j u)"
  unfolding fail_def
  by (intro preserves_intros fin_stop)
     (auto simp add: finished_def setText_def set_icon_def split: option.splits)

lemma fin_update: "preserves (finished i) (update j u)"
  by (simp add: preserves_def update_def setText_def finished_def)

lemma fin_logMethod_spin: "j \<noteq> i \<Longrightarrow> preserves (finished i) (logMethod_spin x j l lv m opts)"
  unfolding logMethod_spin_def new_TTYSpinner_def
  by (intro preserves_intros fin_start)
     (simp_all add: finished_def setText_def set_icon_def)

lemma fin_timer_callback_run: "preserves (finished i) (timer_callback_run x cb)"
  unfolding timer_callback_run_def
  by (cases cb; simp; intro preserves_intros fin_refreshTTY)
     (auto simp add: finished_def spin_def Let_def)

lemma fin_step: "\<not> creates i ev \<Longrightarrow> preserves (finished i) (step x ev)"
  by (rule preserves_step)
     (simp_all add: fin_timer_callback_run fin_handleTerminalResize fin_start fin_update fin_success
        fin_fail fin_stop fin_logger_log fin_logMethod_spin creates_def, simp_all add: finished_def)

lemma fin_after:
  "\<forall>ev \<in> set evs. \<not> creates i ev \<Longrightarrow> finished i s \<Longrightarrow> finished i (after x evs s)"
proof (induction evs arbitrary: s)
  case Nil
  then show ?case by (simp add: after_Nil)
next
  case (Cons ev evs)
  have "finished i (final_state (step x ev s))"
    using fin_step [of i ev x] Cons.prems by (simp add: preserves_def)
  then show ?case
    using Cons by (simp add: after_Cons)
qed

lemma finished_after_stop:
  assumes "started (spinners s i) \<noteq> None"
    "i \<notin> set (runningSpinners s) \<or> stopped (spinners s i) = None"
  shows "finished i (final_state (stop x i s))"
  using handles_after_stop [of s i x] assms
  by (auto simp add: handles_are_def finished_def split: if_splits)

lemma finished_after_terminal_call:
  assumes "is_terminal_call i ev" "started (spinners s i) \<noteq> None"
    "i \<notin> set (runningSpinners s) \<or> stopped (spinners s i) = None"
  shows "finished i (final_state (step x ev s))"
proof (cases ev)
  case (CallStop j)
  then show ?thesis
    using assms finished_after_stop [of s i x] by (simp add: is_terminal_call_def step_def)
next
  case (CallSuccess j v)
  then show ?thesis
    using assms
    by (simp add: is_terminal_call_def step_def success_eq)
       (rule finished_after_stop, auto simp add: set_icon_def setText_def split: option.splits)
next
  case (CallFail j v)
  then show ?thesis
    using assms
    by (simp add: is_terminal_call_def step_def fail_eq)
       (rule finished_after_stop, auto simp add: set_icon_def setText_def split: option.splits)
qed (use assms in \<open>simp_all add: is_terminal_call_def\<close>)

text \<open>The terminal calls on a handle that is not running.\<close>

lemma touches_only_refl: "touches_only i s s"
  unfolding touches_only_def
  by (rule exI [of _ "sp_text (spinners s i)"], rule exI [of _ "icon (spinners s i)"],
      rule exI [of _ "iconIndex (spinners s i)"]) simp

lemma not_running_stop:
  "\<not> (stopped (spinners s i) = None \<and> started (spinners s i) \<noteq> None) \<Longrightarrow> stop x i s = Normal s"
  by (auto simp add: stop_def)

lemma not_running_terminal_call:
  assumes "is_terminal_call i ev"
    "\<not> (stopped (spinners s i) = None \<and> started (spinners s i) \<noteq> None)"
  shows "\<exists>s2. step x ev s = Normal s2 \<and> touches_only i s s2"
proof (cases ev)
  case (CallStop j)
  then show ?thesis
    using assms not_running_stop [of s i x]
    by (simp add: is_terminal_call_def step_def touches_only_refl)
next
  case (CallSuccess j v)
  let ?g = "Glyph (case successIcon (spinnerOptions (spinners s i)) of
                     Some ic \<Rightarrow> ic | None \<Rightarrow> DEFAULT_TTY_SUCCESS_ICON)"
  let ?ta = "set_icon i ?g (case v of None \<Rightarrow> s | Some w \<Rightarrow> setText i w s)"
  have "\<not> (stopped (spinners ?ta i) = None \<and> started (spinners ?ta i) \<noteq> None)"
    using assms(2) by (simp add: set_icon_def setText_def split: option.splits)
  then have "stop x i ?ta = Normal ?ta"
    by (rule not_running_stop)
  moreover have "touches_only i s ?ta"
    unfolding touches_only_def
    by (rule exI [of _ "case v of None \<Rightarrow> sp_text (spinners s i) | Some w \<Rightarrow> w"],
        rule exI [of _ ?g], rule exI [of _ 0])
       (simp add: set_icon_def setText_def split: option.splits)
  ultimately show ?thesis
    using assms(1) by (simp add: CallSuccess is_terminal_call_def step_def success_eq)
next
  case (CallFail j v)
  let ?g = "Glyph (case failIcon (spinnerOptions (spinners s i)) of
                     Some ic \<Rightarrow> ic | None \<Rightarrow> DEFAULT_TTY_FAIL_ICON)"
  let ?ta = "set_icon i ?g (case v of None \<Rightarrow> s | Some w \<Rightarrow> setText i w s)"
  have "\<not> (stopped (spinners ?ta i) = None \<and> started (spinners ?ta i) \<noteq> None)"
    using assms(2) by (simp add: set_icon_def setText_def split: option.splits)
  then have "stop x i ?ta = Normal ?ta"
    by (rule not_running_stop)
  moreover have "touches_only i s ?ta"
    unfolding touches_only_def
    by (rule exI [of _ "case v of None \<Rightarrow> sp_text (spinners s i) | Some w \<Rightarrow> w"],
        rule exI [of _ ?g], rule exI [of _ 0])
       (simp add: set_icon_def setText_def split: option.splits)
  ultimately show ?thesis
    using assms(1) by (simp add: CallFail is_terminal_call_def step_def fail_eq)
qed (use assms in \<open>simp_all add: is_terminal_call_def\<close>)

section \<open>The text of a finished handle\<close>

lemma map_outcome_simps [simp]:
  "map_outcome g (Normal s) = Normal (g s)"
  "map_outcome g (Throw e s) = Throw e (g s)"
  by (simp_all add: map_outcome_def)

lemma final_state_map_outcome: "final_state (map_outcome g r) = g (final_state r)"
  by (cases r) simp_all

lemma ignI:
  assumes "\<And>s v. finished i s \<Longrightarrow> f (setText i v s) = map_outcome (setText i v) (f s)"
    and "preserves (finished i) f"
  shows "ignores_text i f"
  using assms by (simp add: ignores_text_def preserves_def)

lemma ign_andThen:
  assumes f: "ignores_text i f" and g: "ignores_text i g"
  shows "ignores_text i (\<lambda>s. andThen (f s) g)"
  unfolding ignores_text_def
proof (intro allI impI)
  fix s v
  assume fin: "finished i s"
  have fs: "f (setText i v s) = map_outcome (setText i v) (f s)" "finished i (final_state (f s))"
    using f fin by (simp_all add: ignores_text_def)
  show "andThen (f (setText i v s)) g = map_outcome (setText i v) (andThen (f s) g)
      \<and> finished i (final_state (andThen (f s) g))"
  proof (cases "f s")
    case (Normal s1)
    then have "finished i s1"
      using fs(2) by simp
    then show ?thesis
      using g fs(1) Normal by (simp add: ignores_text_def)
  next
    case (Throw e s1)
    then show ?thesis
      using fs by simp
  qed
qed

lemma ign_block_Nil: "ignores_text i (block [])"
  by (simp add: ignores_text_def)

lemma ign_block_Cons:
  "ignores_text i f \<Longrightarrow> ignores_text i (block fs) \<Longrightarrow> ignores_text i (block (f # fs))"
  using ign_andThen [of i f "block fs"] by (simp add: ignores_text_def)

lemma ign_forEach_list:
  assumes "\<And>a. ignores_text i (body a)"
  shows "ignores_text i (forEach bs body)"
proof (induction bs)
  case Nil
  show ?case by (simp add: ignores_text_def)
next
  case (Cons a bs)
  have "ignores_text i (\<lambda>s. andThen (body a s) (forEach bs body))"
    by (rule ign_andThen) (simp_all add: Cons assms)
  then show ?case by (simp add: ignores_text_def)
qed

lemma ign_forEach:
  assumes "\<And>a. ignores_text i (body a)"
    and "\<And>s v. finished i s \<Longrightarrow> bs (setText i v s) = bs s"
  shows "ignores_text i (\<lambda>s. forEach (bs s) body s)"
proof -
  have "ignores_text i (forEach cs body)" for cs
    by (rule ign_forEach_list) (rule assms(1))
  then show ?thesis
    using assms(2) by (simp add: ignores_text_def)
qed

lemma ign_if:
  assumes "ignores_text i f" "ignores_text i g"
    and "\<And>s v. finished i s \<Longrightarrow> c (setText i v s) = c s"
  shows "ignores_text i (\<lambda>s. if c s then f s else g s)"
  using assms by (simp add: ignores_text_def)

lemma ign_Normal: "ignores_text i Normal"
  by (simp add: ignores_text_def)

lemma ign_assign:
  assumes "\<And>s v. finished i s \<Longrightarrow> g (setText i v s) = setText i v (g s) \<and> finished i (g s)"
  shows "ignores_text i (assign g)"
  using assms by (simp add: ignores_text_def)

lemmas ign_intros = ign_block_Cons ign_block_Nil ign_forEach ign_if ign_Normal ign_assign

text \<open>Reading a state in which the text of a handle was replaced.\<close>

lemma setText_reads:
  "tty (setText i v s) = tty s"
  "loggers (setText i v s) = loggers s"
  "exclusive (setText i v s) = exclusive s"
  "runningSpinners (setText i v s) = runningSpinners s"
  "spinnersRefreshInterval (setText i v s) = spinnersRefreshInterval s"
  "ttyRefreshInterval (setText i v s) = ttyRefreshInterval s"
  "newBuffered (setText i v s) = newBuffered s"
  "currentBufferHeight (setText i v s) = currentBufferHeight s"
  "clock (setText i v s) = clock s"
  "isTTY (setText i v s) = isTTY s"
  "columns (setText i v s) = columns s"
  "resizeListeners (setText i v s) = resizeListeners s"
  "stdOutFault (setText i v s) = stdOutFault s"
  "timers (setText i v s) = timers s"
  "nextTimer (setText i v s) = nextTimer s"
  "console (setText i v s) = console s"
  "consoleFault (setText i v s) = consoleFault s"
  "LLOGGER_ENABLED (setText i v s) = LLOGGER_ENABLED s"
  "isRefreshing (setText i v s) = isRefreshing s"
  by (simp_all add: setText_def isRefreshing_def)

lemma setText_other: "j \<noteq> i \<Longrightarrow> spinners (setText i v s) j = spinners s j"
  by (simp add: setText_def)

lemma setText_fields:
  "started (spinners (setText i v s) j) = started (spinners s j)"
  "stopped (spinners (setText i v s) j) = stopped (spinners s j)"
  "icon (spinners (setText i v s) j) = icon (spinners s j)"
  "iconIndex (spinners (setText i v s) j) = iconIndex (spinners s j)"
  "sp_logger (spinners (setText i v s) j) = sp_logger (spinners s j)"
  "sp_level (spinners (setText i v s) j) = sp_level (spinners s j)"
  "sp_prefix (spinners (setText i v s) j) = sp_prefix (spinners s j)"
  "spinnerOptions (spinners (setText i v s) j) = spinnerOptions (spinners s j)"
  by (simp_all add: setText_def)

lemma toString_setText: "j \<noteq> i \<Longrightarrow> toString x (setText i v s) j w = toString x s j w"
  by (simp add: toString_def setText_def)

lemma finished_setText: "finished i (setText j v s) = finished i s"
  by (simp add: finished_def setText_def)

lemmas text_simps =
  setText_reads setText_other setText_fields toString_setText finished_setText

lemma renderings_setText: "finished i s \<Longrightarrow> renderings x (setText i v s) = renderings x s"
  by (rule renderings_other_text) (simp add: text_simps finished_def)

lemma ign_stdOut_op: "ignores_text i (stdOut_op c)"
  by (rule ignI)
     (simp_all add: text_simps stdOut_op_def setText_def preserves_def finished_def split: option.splits)

lemma ign_stdOut:
  "ignores_text i (stdOut_write str)"
  "ignores_text i (stdOut_cursorTo col)"
  "ignores_text i (stdOut_moveCursor dx dy)"
  "ignores_text i (stdOut_clearLine dir)"
  unfolding stdOut_write_def stdOut_cursorTo_def stdOut_moveCursor_def stdOut_clearLine_def
  by (rule ign_stdOut_op)+

lemma ign_console_call: "ignores_text i (console_call m args)"
  by (rule ignI)
     (simp_all add: text_simps console_call_def setText_def preserves_def finished_def split: option.splits)

lemma ign_clearTTY: "ignores_text i clearTTY"
  unfolding clearTTY_def
  by (intro ign_intros ign_stdOut) (simp_all add: text_simps setText_def finished_def)


lemma contents_setText:
  "finished i s \<Longrightarrow>
   map (\<lambda>sp. toString x (setText i v s) sp None) (runningSpinners s)
   = map (\<lambda>sp. toString x s sp None) (runningSpinners s)"
  using renderings_other_text [of i s x v] by (simp add: text_simps renderings_def finished_def)

lemma ign_refresh_write:
  "ignores_text i
     (\<lambda>s. let contents = map (\<lambda>sp. toString x s sp None) (runningSpinners s);
              s' = s\<lparr>currentBufferHeight :=
                      foldl (\<lambda>h spinnerContent. h + getContentHeight x (columns s) spinnerContent)
                        (currentBufferHeight s) contents\<rparr>
          in stdOut_write (js_join (EOL x) (newBuffered s @ contents)) s')"
  unfolding ignores_text_def
proof (intro allI impI)
  fix s v
  assume fin: "finished i s"
  show "(let contents = map (\<lambda>sp. toString x (setText i v s) sp None) (runningSpinners (setText i v s));
              s' = (setText i v s)\<lparr>currentBufferHeight :=
                      foldl (\<lambda>h spinnerContent. h + getContentHeight x (columns (setText i v s)) spinnerContent)
                        (currentBufferHeight (setText i v s)) contents\<rparr>
          in stdOut_write (js_join (EOL x) (newBuffered (setText i v s) @ contents)) s')
      = map_outcome (setText i v)
         (let contents = map (\<lambda>sp. toString x s sp None) (runningSpinners s);
              s' = s\<lparr>currentBufferHeight :=
                      foldl (\<lambda>h spinnerContent. h + getContentHeight x (columns s) spinnerContent)
                        (currentBufferHeight s) contents\<rparr>
          in stdOut_write (js_join (EOL x) (newBuffered s @ contents)) s')
      \<and> finished i (final_state
         (let contents = map (\<lambda>sp. toString x s sp None) (runningSpinners s);
              s' = s\<lparr>currentBufferHeight :=
                      foldl (\<lambda>h spinnerContent. h + getContentHeight x (columns s) spinnerContent)
                        (currentBufferHeight s) contents\<rparr>
          in stdOut_write (js_join (EOL x) (newBuffered s @ contents)) s'))"
    unfolding Let_def setText_reads contents_setText [OF fin]
    using fin
    by (auto simp add: text_simps stdOut_write_def stdOut_op_def setText_def finished_def split: option.splits)
qed

lemma ign_refreshTTY: "ignores_text i (refreshTTY x)"
  unfolding refreshTTY_def [abs_def]
  by (intro ign_intros ign_clearTTY ign_refresh_write)
     (auto simp add: text_simps setText_def finished_def isRefreshing_def)


lemma ign_forEach_live:
  assumes "\<And>a. a \<noteq> i \<Longrightarrow> ignores_text i (body a)"
    and "\<And>s v. finished i s \<Longrightarrow> bs (setText i v s) = bs s \<and> i \<notin> set (bs s)"
  shows "ignores_text i (\<lambda>s. forEach (bs s) body s)"
proof -
  have "ignores_text i (forEach cs body)" if "i \<notin> set cs" for cs
    using that
  proof (induction cs)
    case Nil
    show ?case by (simp add: text_simps ignores_text_def)
  next
    case (Cons a cs)
    have "ignores_text i (\<lambda>s. andThen (body a s) (forEach cs body))"
      by (rule ign_andThen) (use Cons assms(1) [of a] in auto)
    then show ?case by (simp add: text_simps ignores_text_def)
  qed
  then show ?thesis
    using assms(2) by (simp add: text_simps ignores_text_def)
qed

lemma ign_handleTerminalResize: "ignores_text i (handleTerminalResize x)"
  unfolding handleTerminalResize_def
  by (intro ign_block_Cons ign_block_Nil ign_assign ign_forEach_live ign_refreshTTY)
     (auto simp add: text_simps setText_def finished_def isRefreshing_def toString_def)

lemma ign_startRefresh: "ignores_text i (startRefresh x)"
  unfolding startRefresh_def [abs_def]
  by (intro ign_intros ign_refreshTTY ign_stdOut)
     (auto simp add: text_simps setText_def finished_def isRefreshing_def stdOut_on_resize_def setInterval_def)

lemma ign_stopRefreshTTY: "ignores_text i (stopRefreshTTY x)"
  unfolding stopRefreshTTY_def [abs_def]
  by (intro ign_intros ign_refreshTTY ign_stdOut)
     (auto simp add: text_simps setText_def finished_def isRefreshing_def stdOut_off_resize_def
        clearInterval_def split: option.splits)


text \<open>The logging call does not read the handles.\<close>

lemma setLastLog_setText: "setLastLog l t (setText i v s) = setText i v (setLastLog l t s)"
  by (simp add: text_simps setLastLog_def setText_def)

lemma addContentToBuffer_setText:
  "addContentToBuffer str (setText i v s) = setText i v (addContentToBuffer str s)"
  by (simp add: text_simps addContentToBuffer_def setText_def)

lemma computeOptions_setText: "computeOptions (setText i v s) l = computeOptions s l"
  by (simp add: text_simps computeOptions_def setText_def)

lemma console_call_setText:
  "console_call m args (setText i v s) = map_outcome (setText i v) (console_call m args s)"
  by (simp add: text_simps console_call_def setText_def split: option.splits)

lemma console_calls_setText:
  "forEach ms (\<lambda>m. console_call m args) (setText i v s)
   = map_outcome (setText i v) (forEach ms (\<lambda>m. console_call m args) s)"
proof (induction ms arbitrary: s)
  case Nil
  show ?case by simp
next
  case (Cons m ms)
  show ?case
    by (cases "console_call m args s") (simp_all add: text_simps console_call_setText Cons)
qed

lemma outputLog_try_setText:
  "outputLog_try x lvl args lg ov (setText i v s)
   = map_outcome (setText i v) (outputLog_try x lvl args lg ov s)"
  unfolding outputLog_try_def Let_def
  by (simp add: text_simps console_calls_setText setLastLog_setText addContentToBuffer_setText
        computeOptions_setText text_simps
        cong: option.case_cong prefix_override.case_cong if_cong)

lemma outputLog_setText:
  "outputLog x lvl args lg ov (setText i v s)
   = map_outcome (setText i v) (outputLog x lvl args lg ov s)"
  by (cases "outputLog_try x lvl args lg ov s")
     (simp_all add: text_simps outputLog_def outputLog_try_setText console_call_setText)

lemma ign_logger_log: "ignores_text i (logger_log x l lv args)"
  by (rule ignI) (simp_all add: text_simps logger_log_def outputLog_setText fin_logger_log [unfolded logger_log_def])

lemma ign_logger_log_dep:
  assumes "\<forall>l lv args. ignores_text i (logger_log x l lv args)"
    and "\<And>s v. finished i s \<Longrightarrow>
           l (setText i v s) = l s \<and> lv (setText i v s) = lv s \<and> args (setText i v s) = args s"
  shows "ignores_text i (\<lambda>s. logger_log x (l s) (lv s) (args s) s)"
  using assms by (simp add: text_simps ignores_text_def)


text \<open>The methods of the handles.\<close>

lemma ign_start: "ignores_text i (start x j)"
proof (cases "j = i")
  case True
  show ?thesis
    by (rule ignI) (auto simp add: text_simps True start_def finished_def fin_start)
next
  case False
  have lg: "\<forall>l lv args. ignores_text i (logger_log x l lv args)"
    by (simp add: text_simps ign_logger_log)
  show ?thesis
    unfolding start_def [abs_def]
    by (intro ign_intros ign_logger_log_dep ign_startRefresh lg)
       (auto simp add: text_simps False False [THEN not_sym] setText_def finished_def isRefreshing_def
          runningSpinners_add_def toString_def fun_upd_twist)
qed

lemma ign_stop: "ignores_text i (stop x j)"
proof (cases "j = i")
  case True
  show ?thesis
    by (rule ignI) (auto simp add: text_simps True stop_def finished_def fin_stop)
next
  case False
  have lg: "\<forall>l lv args. ignores_text i (logger_log x l lv args)"
    by (simp add: text_simps ign_logger_log)
  show ?thesis
    unfolding stop_def [abs_def]
    by (intro ign_intros ign_logger_log_dep ign_stopRefreshTTY lg)
       (auto simp add: text_simps False False [THEN not_sym] setText_def finished_def isRefreshing_def
          runningSpinners_delete_def addContentToBuffer_def toString_def fun_upd_twist)
qed


lemma text_icon_twist:
  "r\<lparr>icon := a, iconIndex := b, sp_text := v\<rparr> = r\<lparr>sp_text := v, icon := a, iconIndex := b\<rparr>"
  by (rule TTYSpinner.equality) simp_all

lemma ign_success: "j \<noteq> i \<or> u = None \<Longrightarrow> ignores_text i (success x j u)"
  unfolding success_def
  by (intro ign_intros ign_stop)
     (auto simp add: text_simps setText_def set_icon_def finished_def fun_upd_twist text_icon_twist
        split: option.splits)

lemma ign_fail: "j \<noteq> i \<or> u = None \<Longrightarrow> ignores_text i (fail x j u)"
  unfolding fail_def
  by (intro ign_intros ign_stop)
     (auto simp add: text_simps setText_def set_icon_def finished_def fun_upd_twist text_icon_twist
        split: option.splits)

lemma ign_update: "j \<noteq> i \<Longrightarrow> ignores_text i (update j u)"
  by (rule ignI) (auto simp add: text_simps update_def setText_def fun_upd_twist fin_update)

lemma ign_spin: "ignores_text i (assign (spin j))"
  by (rule ign_assign) (auto simp add: text_simps spin_def Let_def setText_def finished_def fun_upd_twist)

lemma ign_timer_callback_run: "ignores_text i (timer_callback_run x cb)"
  unfolding timer_callback_run_def
  by (cases cb; simp; intro ign_intros ign_refreshTTY ign_spin) (simp_all add: text_simps)

lemma ign_logMethod_spin: "j \<noteq> i \<Longrightarrow> ignores_text i (logMethod_spin x j l lv m opts)"
  unfolding logMethod_spin_def new_TTYSpinner_def
  by (intro ign_intros ign_start)
     (auto simp add: text_simps setText_def set_icon_def finished_def fun_upd_twist)

lemma ign_resize:
  "ignores_text i (\<lambda>s. forEach [0 ..< resizeListeners s] (\<lambda>_. handleTerminalResize x) (s\<lparr>columns := w\<rparr>))"
proof -
  have "ignores_text i (block [assign (\<lambda>s. s\<lparr>columns := w\<rparr>),
           (\<lambda>s. forEach [0 ..< resizeListeners s] (\<lambda>_. handleTerminalResize x) s)])"
    by (intro ign_intros ign_handleTerminalResize) (auto simp add: text_simps setText_def finished_def)
  then show ?thesis
    by (simp add: text_simps ignores_text_def)
qed

text \<open>Events that do not assign the text of the handle.\<close>

lemma ign_step:
  assumes "\<not> creates i ev" "\<not> writes_text i ev"
  shows "ignores_text i (step x ev)"
proof (cases ev)
  case (TimerFires h)
  show ?thesis
    unfolding ignores_text_def
  proof (intro allI impI)
    fix s v
    assume "finished i s"
    then show "step x ev (setText i v s) = map_outcome (setText i v) (step x ev s)
        \<and> finished i (final_state (step x ev s))"
      using ign_timer_callback_run [of i x]
      by (simp add: text_simps TimerFires step_def ignores_text_def split: list.splits)
  qed
next
  case (Resized w)
  show ?thesis
    using ign_resize [of i x w] by (simp add: text_simps Resized step_def [abs_def])
next
  case (ClockReads t)
  show ?thesis
    by (rule ignI) (auto simp add: text_simps ClockReads step_def setText_def finished_def preserves_def)
next
  case (CallStart j)
  then show ?thesis
    using ign_start [of i x j] by (simp add: text_simps step_def [abs_def])
next
  case (CallUpdate j u)
  then show ?thesis
    using assms ign_update [of j i u] by (simp add: text_simps step_def [abs_def] writes_text_def)
next
  case (CallSuccess j u)
  then show ?thesis
    using assms ign_success [of j i u x] by (auto simp add: text_simps step_def [abs_def] writes_text_def)
next
  case (CallFail j u)
  then show ?thesis
    using assms ign_fail [of j i u x] by (auto simp add: text_simps step_def [abs_def] writes_text_def)
next
  case (CallStop j)
  then show ?thesis
    using ign_stop [of i x j] by (simp add: text_simps step_def [abs_def])
next
  case (CallLog l lv args)
  then show ?thesis
    using ign_logger_log [of i x l lv args] by (simp add: text_simps step_def [abs_def])
next
  case (CallSpin j l lv m opts)
  then show ?thesis
    using assms ign_logMethod_spin [of j i x l lv m opts] by (simp add: text_simps step_def [abs_def] creates_def)
next
  case (SetEnabled l b)
  show ?thesis
    by (rule ignI) (auto simp add: text_simps SetEnabled step_def setText_def finished_def preserves_def)
next
  case (StreamFault f)
  show ?thesis
    by (rule ignI) (auto simp add: text_simps StreamFault step_def setText_def finished_def preserves_def)
qed


text \<open>
  The states with and without another text of a finished handle, after the same events.
\<close>

lemma setText_setText: "setText i w (setText i v s) = setText i w s"
  by (simp add: text_simps setText_def)

lemma step_but_text:
  assumes "finished i s" "\<not> creates i ev"
  shows "\<exists>w. final_state (step x ev (setText i v s)) = setText i w (final_state (step x ev s))"
proof (cases "writes_text i ev")
  case False
  have "step x ev (setText i v s) = map_outcome (setText i v) (step x ev s)"
    using ign_step [OF assms(2) False, of x] assms(1) by (simp add: text_simps ignores_text_def)
  then show ?thesis
    by (auto simp add: text_simps final_state_map_outcome)
next
  case True
  have same: "\<exists>w. t = setText i w t" for t
    by (rule exI [of _ "sp_text (spinners t i)"]) (simp add: text_simps setText_same)
  show ?thesis
  proof (cases ev)
    case (CallUpdate j u)
    then show ?thesis
      using True same [of "setText i u s"]
      by (simp add: text_simps writes_text_def step_def update_def setText_setText)
  next
    case (CallSuccess j u)
    then obtain w where u: "u = Some w" and j: "j = i"
      using True by (auto simp add: text_simps writes_text_def)
    have "step x ev (setText i v s) = step x ev s"
      by (simp add: text_simps CallSuccess u j step_def success_eq setText_setText)
    then show ?thesis
      using same [of "final_state (step x ev s)"] by simp
  next
    case (CallFail j u)
    then obtain w where u: "u = Some w" and j: "j = i"
      using True by (auto simp add: text_simps writes_text_def)
    have "step x ev (setText i v s) = step x ev s"
      by (simp add: text_simps CallFail u j step_def fail_eq setText_setText)
    then show ?thesis
      using same [of "final_state (step x ev s)"] by simp
  qed (use True in \<open>simp_all add: writes_text_def\<close>)
qed

lemma after_but_text:
  assumes "\<forall>e \<in> set evs. \<not> creates i e" "finished i s"
  shows "\<exists>w. after x evs (setText i v s) = setText i w (after x evs s)"
  using assms
proof (induction evs arbitrary: s v)
  case Nil
  show ?case
    by (auto simp add: after_Nil)
next
  case (Cons ev evs)
  obtain w where w: "final_state (step x ev (setText i v s)) = setText i w (final_state (step x ev s))"
    using step_but_text [of i s ev x v] Cons.prems by auto
  have "finished i (final_state (step x ev s))"
    using fin_step [of i ev x] Cons.prems by (simp add: text_simps preserves_def)
  then show ?case
    using Cons.IH [of "final_state (step x ev s)" w] Cons.prems(1) w by (simp add: after_Cons)
qed

section \<open>A resize, and the catch of the logging call\<close>

text \<open>
  On a working stream, a resize of the active multiplexer stores the heights of the
  current renderings at the new width, erases that many rows and redraws.
\<close>

lemma andThen_forEach_Nil [simp]: "andThen r (forEach [] body) = r"
  by (cases r) simp_all

lemma handleTerminalResize_ok:
  assumes "stdOutFault s = None" "isRefreshing s"
  shows "handleTerminalResize x s =
     Normal (s\<lparr>tty := tty s @ clear_ops (sum_list (map (getContentHeight x (columns s)) (renderings x s)))
                    @ [Write (frame x s)],
              currentBufferHeight := sum_list (map (getContentHeight x (columns s)) (renderings x s)),
              newBuffered := []\<rparr>)"
proof -
  have loop: "forEach js (\<lambda>spinner. assign (\<lambda>s. s\<lparr>currentBufferHeight :=
                 currentBufferHeight s + getContentHeight x (columns s) (toString x s spinner None)\<rparr>)) t
     = Normal (t\<lparr>currentBufferHeight := currentBufferHeight t
                 + sum_list (map (\<lambda>i. getContentHeight x (columns t) (toString x t i None)) js)\<rparr>)" for js t
    by (induction js arbitrary: t) (simp_all add: toString_def)
  let ?h = "sum_list (map (getContentHeight x (columns s)) (renderings x s))"
  have same: "toString x (s\<lparr>currentBufferHeight := 0\<rparr>) i None = toString x s i None" for i
    by (simp add: toString_def)
  have "handleTerminalResize x s = refreshTTY x (s\<lparr>currentBufferHeight := ?h\<rparr>)"
    by (simp add: handleTerminalResize_def loop renderings_def comp_def same)
  also have "\<dots> = Normal (s\<lparr>currentBufferHeight := ?h\<rparr>
             \<lparr>tty := tty (s\<lparr>currentBufferHeight := ?h\<rparr>)
                     @ clear_ops (currentBufferHeight (s\<lparr>currentBufferHeight := ?h\<rparr>))
                     @ [Write (frame x (s\<lparr>currentBufferHeight := ?h\<rparr>))],
               currentBufferHeight := sum_list (map (getContentHeight x (columns (s\<lparr>currentBufferHeight := ?h\<rparr>)))
                                        (renderings x (s\<lparr>currentBufferHeight := ?h\<rparr>))),
               newBuffered := []\<rparr>)"
    by (rule refreshTTY_ok) (use assms in \<open>simp_all add: isRefreshing_def\<close>)
  also have "\<dots> = Normal (s\<lparr>tty := tty s @ clear_ops ?h @ [Write (frame x s)],
              currentBufferHeight := ?h, newBuffered := []\<rparr>)"
    by (simp add: frame_def renderings_def toString_def)
  finally show ?thesis .
qed

lemma resize_ok:
  assumes "stdOutFault s = None" "isRefreshing s" "resizeListeners s = 1"
  shows "step x (Resized w) s =
     Normal (s\<lparr>columns := w,
              tty := tty s @ clear_ops (sum_list (map (getContentHeight x w) (renderings x s)))
                    @ [Write (frame x s)],
              currentBufferHeight := sum_list (map (getContentHeight x w) (renderings x s)),
              newBuffered := []\<rparr>)"
proof -
  have "step x (Resized w) s = handleTerminalResize x (s\<lparr>columns := w\<rparr>)"
    using assms(3) by (simp add: step_def)
  also have "\<dots> = Normal (s\<lparr>columns := w\<rparr>
        \<lparr>tty := tty (s\<lparr>columns := w\<rparr>)
               @ clear_ops (sum_list (map (getContentHeight x (columns (s\<lparr>columns := w\<rparr>)))
                                       (renderings x (s\<lparr>columns := w\<rparr>))))
               @ [Write (frame x (s\<lparr>columns := w\<rparr>))],
          currentBufferHeight := sum_list (map (getContentHeight x (columns (s\<lparr>columns := w\<rparr>)))
                                       (renderings x (s\<lparr>columns := w\<rparr>))),
          newBuffered := []\<rparr>)"
    by (rule handleTerminalResize_ok) (use assms in \<open>simp_all add: isRefreshing_def\<close>)
  also have "\<dots> = Normal (s\<lparr>columns := w,
              tty := tty s @ clear_ops (sum_list (map (getContentHeight x w) (renderings x s)))
                    @ [Write (frame x s)],
              currentBufferHeight := sum_list (map (getContentHeight x w) (renderings x s)),
              newBuffered := []\<rparr>)"
    by (simp add: frame_def renderings_def toString_def)
  finally show ?thesis .
qed

text \<open>
  The \<open>catch\<close> of \<open>outputLog\<close> holds every exception back as long as
  \<open>console.error\<close> itself works.
\<close>

lemma outputLog_returns:
  assumes "consoleFault s console_error = None"
  shows "returns (outputLog x lvl args logger override s)"
proof (cases "outputLog_try x lvl args logger override s")
  case (Normal s')
  then show ?thesis by (simp add: outputLog_def)
next
  case (Throw e s')
  have "preserves (\<lambda>s. consoleFault s console_error = None) (outputLog_try x lvl args logger override)"
    by (rule preserves_outputLog_try) (simp_all add: setLastLog_def addContentToBuffer_def)
  then have "consoleFault (final_state (outputLog_try x lvl args logger override s)) console_error = None"
    using assms by (simp add: preserves_def)
  then have "consoleFault s' console_error = None"
    using Throw by simp
  then show ?thesis
    using Throw by (simp add: outputLog_def console_call_def)
qed

section \<open>Events and the stored row count\<close>

lemma block_single: "block [f] = f"
  by (rule ext) simp

lemma calm_refl: "calm s s"
  by (simp add: calm_def)

lemma calm_stream_ok: "calm s s' \<Longrightarrow> stream_ok s \<Longrightarrow> stream_ok s'"
  by (simp add: calm_def stream_ok_def isRefreshing_def)

lemma calm_logger_log: "preserves (calm s0) (logger_log x l lv args)"
  unfolding logger_log_def
  by (rule preserves_outputLog) (simp_all add: calm_def setLastLog_def addContentToBuffer_def)

lemma redrawsI:
  assumes "tty s' = tty s @ pre @ clear_ops rows @ [Write (js_join (EOL x) (b @ renderings x s'))] @ post"
    "pre = (if isRefreshing s then [] else [Write CURSOR_HIDE])"
    "post = (if isRefreshing s' then [] else [Write (EOL x), Write CURSOR_SHOW])"
    "currentBufferHeight s' = handle_rows x s'"
  shows "redraws x rows s s'"
  unfolding redraws_def using assms by blast

text \<open>One redraw of the active multiplexer; the animation timer's loop.\<close>

lemma refreshTTY_rows:
  assumes "stream_ok t" "isRefreshing t"
  shows "\<exists>s'. refreshTTY x t = Normal s' \<and> stream_ok s' \<and> isRefreshing s'
     \<and> tty s' = tty t @ clear_ops (currentBufferHeight t)
                 @ [Write (js_join (EOL x) (newBuffered t @ renderings x s'))]
     \<and> currentBufferHeight s' = handle_rows x s'"
  using assms
  by (simp add: refreshTTY_ok stream_ok_def isRefreshing_def handle_rows_def frame_def renderings_def
        toString_def)

lemma spin_all:
  "forEach js (\<lambda>sp. assign (spin sp)) s = Normal (foldl (\<lambda>s j. spin j s) s js)"
  by (induction js arbitrary: s) simp_all

lemma calm_spin_all: "calm s (foldl (\<lambda>s j. spin j s) s js)"
proof -
  have "calm s0 (foldl (\<lambda>s j. spin j s) s js)" if "calm s0 s" for s0 s
    using that by (induction js arbitrary: s) (simp_all add: calm_def spin_def Let_def)
  then show ?thesis by (simp add: calm_refl)
qed

lemma timer_rows:
  assumes "stream_ok s" and s': "s' = final_state (timer_callback_run x cb s)"
  shows "stream_ok s' \<and> (if tty s' = tty s then currentBufferHeight s' = currentBufferHeight s
           else redraws x (currentBufferHeight s) s s')"
proof -
  define t where "t = (case cb of
      SpinThenRefresh \<Rightarrow> foldl (\<lambda>s j. spin j s) s (runningSpinners s) | RefreshOnly \<Rightarrow> s)"
  have run: "timer_callback_run x cb s = refreshTTY x t"
    by (cases cb) (simp_all add: timer_callback_run_def spin_all t_def)
  have calm: "calm s t"
    by (cases cb) (simp_all add: t_def calm_spin_all calm_refl)
  then have ok: "stream_ok t"
    using assms(1) by (rule calm_stream_ok)
  show ?thesis
  proof (cases "isRefreshing t")
    case False
    then have "s' = t"
      by (simp add: s' run refreshTTY_idle)
    then show ?thesis
      using calm ok by (simp add: calm_def)
  next
    case True
    obtain u where u: "refreshTTY x t = Normal u" "stream_ok u" "isRefreshing u"
      "tty u = tty t @ clear_ops (currentBufferHeight t)
               @ [Write (js_join (EOL x) (newBuffered t @ renderings x u))]"
      "currentBufferHeight u = handle_rows x u"
      using refreshTTY_rows [OF ok True] by blast
    have "redraws x (currentBufferHeight s) s u"
      by (rule redrawsI [where pre = "[]" and post = "[]" and b = "newBuffered t"])
         (use u calm True in \<open>simp_all add: calm_def isRefreshing_def\<close>)
    moreover have "tty u \<noteq> tty s"
      using u(4) calm by (simp add: calm_def)
    ultimately show ?thesis
      using u by (simp add: s' run)
  qed
qed

text \<open>\<open>start\<close>, and the second \<open>start\<close> that the \<open>spin\<close> method of a log method calls.\<close>

lemma ha_startRefresh: "preserves (handles_are objs live) (startRefresh x)"
  unfolding startRefresh_def [abs_def]
  by (intro preserves_intros ha_refreshTTY ha_stdOut)
     (simp_all add: handles_are_def stdOut_on_resize_def setInterval_def)

lemma startRefresh_rows:
  assumes "stream_ok t" "\<not> isRefreshing t" "isTTY t"
  shows "\<exists>s'. startRefresh x t = Normal s' \<and> stream_ok s' \<and> isRefreshing s'
     \<and> tty s' = tty t @ [Write CURSOR_HIDE] @ clear_ops (currentBufferHeight t)
                 @ [Write (js_join (EOL x) (newBuffered t @ renderings x s'))]
     \<and> currentBufferHeight s' = handle_rows x s'"
  using assms
  by (simp add: startRefresh_def stdOut_ok stdOut_on_resize_def setInterval_def refreshTTY_ok
        stream_ok_def isRefreshing_def handle_rows_def frame_def renderings_def toString_def)

lemma start_rows:
  assumes "stream_ok s" and s': "s' = final_state (start x i s)"
  shows "stream_ok s' \<and> (if tty s' = tty s then currentBufferHeight s' = currentBufferHeight s
           else redraws x (currentBufferHeight s) s s')"
proof (cases "\<not> enabled (options (loggers s RootLogger))
         \<or> \<not> enabled (options (loggers s (sp_logger (spinners s i))))
         \<or> started (spinners s i) \<noteq> None")
  case True
  then have "s' = s"
    by (auto simp add: s' start_def)
  then show ?thesis
    using assms(1) by simp
next
  case False
  define t where "t = runningSpinners_add i
     (s\<lparr>spinners := (spinners s)(i := (spinners s i)\<lparr>started := Some (clock s)\<rparr>)\<rparr>)"
  have calm: "calm s t"
    by (simp add: t_def calm_def runningSpinners_add_def)
  then have ok: "stream_ok t"
    using assms(1) by (rule calm_stream_ok)
  have run: "start x i s =
     andThen (if \<not> isRefreshing t then startRefresh x t else Normal t)
       (\<lambda>s. if \<not> isRefreshing s
              then logger_log x (sp_logger (spinners s i)) (sp_level (spinners s i))
                     (spread (toString x s i (Some False))) s
              else Normal s)"
    using False by (simp add: start_def t_def block_single)
  show ?thesis
  proof (cases "isRefreshing t")
    case True
    then have "s' = t"
      by (simp add: s' run)
    then show ?thesis
      using calm ok by (simp add: calm_def)
  next
    case idle: False
    show ?thesis
    proof (cases "isTTY t")
      case True
      obtain u where u: "startRefresh x t = Normal u" "stream_ok u" "isRefreshing u"
        "tty u = tty t @ [Write CURSOR_HIDE] @ clear_ops (currentBufferHeight t)
                 @ [Write (js_join (EOL x) (newBuffered t @ renderings x u))]"
        "currentBufferHeight u = handle_rows x u"
        using startRefresh_rows [OF ok idle True] by blast
      have "s' = u"
        using idle u(1,3) by (simp add: s' run)
      moreover have "redraws x (currentBufferHeight s) s u"
        by (rule redrawsI [where pre = "[Write CURSOR_HIDE]" and post = "[]" and b = "newBuffered t"])
           (use u calm idle in \<open>simp_all add: calm_def isRefreshing_def\<close>)
      moreover have "tty u \<noteq> tty s"
        using u(4) calm by (simp add: calm_def)
      ultimately show ?thesis
        using u by simp
    next
      case False
      have "preserves (calm s) (logger_log x (sp_logger (spinners t i)) (sp_level (spinners t i))
                     (spread (toString x t i (Some False))))"
        by (rule calm_logger_log)
      then have "calm s (final_state (logger_log x (sp_logger (spinners t i)) (sp_level (spinners t i))
                     (spread (toString x t i (Some False))) t))"
        using calm by (simp add: preserves_def)
      moreover have "s' = final_state (logger_log x (sp_logger (spinners t i)) (sp_level (spinners t i))
                     (spread (toString x t i (Some False))) t)"
        using idle False by (simp add: s' run startRefresh_def)
      ultimately have "calm s s'"
        by simp
      then show ?thesis
        using assms(1) calm_stream_ok [of s s'] by (simp add: calm_def)
    qed
  qed
qed

lemma start_again:
  assumes "start x i s = Normal s1"
  shows "start x i s1 = Normal s1"
proof (cases "\<not> enabled (options (loggers s RootLogger))
         \<or> \<not> enabled (options (loggers s (sp_logger (spinners s i))))
         \<or> started (spinners s i) \<noteq> None")
  case True
  then have "s1 = s"
    using assms by (auto simp add: start_def split: if_splits)
  then show ?thesis
    using assms by simp
next
  case False
  define objs where "objs = (spinners s)(i := (spinners s i)\<lparr>started := Some (clock s)\<rparr>)"
  define t where "t = runningSpinners_add i (s\<lparr>spinners := objs\<rparr>)"
  define rest where "rest = block [(\<lambda>s. if \<not> isRefreshing s then startRefresh x s else Normal s),
         (\<lambda>s. if \<not> isRefreshing s
              then logger_log x (sp_logger (spinners s i)) (sp_level (spinners s i))
                     (spread (toString x s i (Some False))) s
              else Normal s)]"
  have "preserves (handles_are objs (runningSpinners t)) rest"
    unfolding rest_def
    by (intro preserves_intros preserves_logger_log_dep ha_startRefresh)
       (simp add: ha_logger_log)
  moreover have "handles_are objs (runningSpinners t) t"
    by (simp add: handles_are_def runningSpinners_add_def t_def)
  ultimately have "handles_are objs (runningSpinners t) (final_state (rest t))"
    by (rule preservesD)
  moreover have "start x i s = rest t"
    using False by (simp add: start_def rest_def t_def objs_def)
  then have "rest t = Normal s1"
    using assms by simp
  then have "final_state (rest t) = s1"
    by simp
  ultimately have "spinners s1 = objs"
    by (simp add: handles_are_def)
  then show ?thesis
    by (simp add: start_def objs_def)
qed

lemma logMethod_spin_final:
  "final_state (logMethod_spin x i l lv m opts s) =
   final_state (start x i (set_icon i
       (Frames (js_split (case runningIcon opts of Some r \<Rightarrow> r | None \<Rightarrow> DEFAULT_TTY_SPINNER)
                  (ascii ''||'')))
       (setText i m (s\<lparr>spinners := (spinners s)(i :=
                  \<lparr>sp_prefix = (case opt_prefix opts of None \<Rightarrow> PrefixUndefined | Some p \<Rightarrow> PrefixText p),
                   sp_text = [], iconIndex = 0, icon = NoIcon, sp_logger = l, sp_level = lv,
                   started = None, stopped = None, spinnerOptions = opts\<lparr>opt_text := m\<rparr>\<rparr>)\<rparr>))))"
  (is "_ = final_state (start x i ?t0)")
proof (cases "start x i ?t0")
  case (Normal s1)
  then show ?thesis
    using start_again [OF Normal] by (simp add: logMethod_spin_def new_TTYSpinner_def)
next
  case (Throw e s1)
  then show ?thesis
    by (simp add: logMethod_spin_def new_TTYSpinner_def)
qed

text \<open>\<open>stop\<close>: of a handle that is not running, of one of several live handles, of the last one.\<close>

lemma stop_rows:
  assumes "stream_ok s" and s': "s' = final_state (stop x i s)"
  shows "stream_ok s' \<and> (if tty s' = tty s then currentBufferHeight s' = currentBufferHeight s
           else redraws x (currentBufferHeight s) s s')"
proof (cases "stopped (spinners s i) = None \<and> started (spinners s i) \<noteq> None")
  case False
  then have "s' = s"
    by (auto simp add: s' stop_def)
  then show ?thesis
    using assms(1) by simp
next
  case True
  define t0 where "t0 = runningSpinners_delete i
     (s\<lparr>spinners := (spinners s)(i := (spinners s i)\<lparr>stopped := Some (clock s)\<rparr>)\<rparr>)"
  define t where "t = addContentToBuffer (toString x t0 i None) t0"
  have calm: "calm s t"
    by (simp add: t_def t0_def calm_def runningSpinners_delete_def addContentToBuffer_def)
  then have ok: "stream_ok t"
    using assms(1) by (rule calm_stream_ok)
  have run: "stop x i s =
     (if \<not> isRefreshing t
      then logger_log x (sp_logger (spinners t i)) (sp_level (spinners t i))
             [toString x t i (Some False)] t
      else if runningSpinners t = [] then stopRefreshTTY x t
      else Normal t)"
    using True by (simp add: stop_def t_def t0_def)
  show ?thesis
  proof (cases "isRefreshing t")
    case False
    have "preserves (calm s) (logger_log x (sp_logger (spinners t i)) (sp_level (spinners t i))
             [toString x t i (Some False)])"
      by (rule calm_logger_log)
    then have "calm s (final_state (logger_log x (sp_logger (spinners t i)) (sp_level (spinners t i))
             [toString x t i (Some False)] t))"
      using calm by (simp add: preserves_def)
    then have "calm s s'"
      using False by (simp add: s' run)
    then show ?thesis
      using assms(1) calm_stream_ok [of s s'] by (simp add: calm_def)
  next
    case active: True
    show ?thesis
    proof (cases "runningSpinners t = []")
      case False
      then have "s' = t"
        using active by (simp add: s' run)
      then show ?thesis
        using calm ok by (simp add: calm_def)
    next
      case True
      let ?u = "t\<lparr>tty := tty t @ clear_ops (currentBufferHeight t)
                    @ [Write (frame x t), Write (EOL x), Write CURSOR_SHOW],
              resizeListeners := resizeListeners t - 1,
              timers := filter (\<lambda>e. Some (fst e) \<noteq> spinnersRefreshInterval t
                                   \<and> Some (fst e) \<noteq> ttyRefreshInterval t) (timers t),
              spinnersRefreshInterval := None,
              ttyRefreshInterval := None,
              currentBufferHeight := 0,
              newBuffered := []\<rparr>"
      have u: "s' = ?u"
        using active True ok by (simp add: s' run stopRefreshTTY_ok stream_ok_def)
      have "redraws x (currentBufferHeight s) s ?u"
        by (rule redrawsI [where pre = "[]" and post = "[Write (EOL x), Write CURSOR_SHOW]"
              and b = "newBuffered t"])
           (use True calm active in
             \<open>simp_all add: calm_def frame_def renderings_def handle_rows_def isRefreshing_def\<close>)
      moreover have "tty ?u \<noteq> tty s"
        using calm by (simp add: calm_def)
      moreover have "stream_ok ?u"
        using ok active by (simp add: stream_ok_def isRefreshing_def)
      ultimately show ?thesis
        unfolding u by simp
    qed
  qed
qed

text \<open>
  Every event that leaves the stream working either sends nothing and leaves the stored
  row count, or sends one redraw.
\<close>

lemma rows_transfer:
  assumes "calm s t"
    and "stream_ok s' \<and> (if tty s' = tty t then currentBufferHeight s' = currentBufferHeight t
           else redraws x (currentBufferHeight t) t s')"
  shows "stream_ok s' \<and> (if tty s' = tty s then currentBufferHeight s' = currentBufferHeight s
           else redraws x (currentBufferHeight s) s s')"
  using assms by (auto simp add: calm_def redraws_def isRefreshing_def)

lemma step_rows:
  assumes "stream_ok s" "admitted ev" and s': "s' = final_state (step x ev s)"
  shows "stream_ok s' \<and> (if tty s' = tty s then currentBufferHeight s' = currentBufferHeight s
           else redraws x (case ev of Resized w \<Rightarrow> handle_rows x s' | _ \<Rightarrow> currentBufferHeight s) s s')"
proof (cases ev)
  case (TimerFires h)
  show ?thesis
  proof (cases "filter (\<lambda>e. fst e = h) (timers s)")
    case Nil
    then show ?thesis
      using assms(1) by (simp add: s' TimerFires step_def)
  next
    case (Cons e es)
    then have e: "s' = final_state (timer_callback_run x (snd (snd e)) s)"
      by (simp add: s' TimerFires step_def)
    show ?thesis
      using timer_rows [OF assms(1) e] by (simp add: TimerFires)
  qed
next
  case (Resized w)
  then have w: "0 < w"
    using assms(2) by (simp add: admitted_def)
  show ?thesis
  proof (cases "isRefreshing s")
    case False
    then have "s' = s\<lparr>columns := w\<rparr>"
      using assms(1) by (simp add: s' Resized step_def stream_ok_def)
    then show ?thesis
      using assms(1) w by (simp add: stream_ok_def isRefreshing_def)
  next
    case True
    let ?h = "sum_list (map (getContentHeight x w) (renderings x s))"
    let ?u = "s\<lparr>columns := w, tty := tty s @ clear_ops ?h @ [Write (frame x s)],
              currentBufferHeight := ?h, newBuffered := []\<rparr>"
    have u: "s' = ?u"
      using assms(1) True by (simp add: s' Resized resize_ok stream_ok_def)
    have "redraws x (handle_rows x ?u) s ?u"
      by (rule redrawsI [where pre = "[]" and post = "[]" and b = "newBuffered s"])
         (use True in \<open>simp_all add: handle_rows_def frame_def renderings_def toString_def
            isRefreshing_def\<close>)
    moreover have "stream_ok ?u"
      using assms(1) w by (simp add: stream_ok_def isRefreshing_def)
    ultimately show ?thesis
      unfolding u by (simp add: Resized)
  qed
next
  case (ClockReads t)
  then show ?thesis
    using assms(1) by (simp add: s' step_def stream_ok_def isRefreshing_def)
next
  case (CallStart i)
  then have e: "s' = final_state (start x i s)"
    by (simp add: s' step_def)
  show ?thesis
    using start_rows [OF assms(1) e] by (simp add: CallStart)
next
  case (CallUpdate i u)
  then show ?thesis
    using assms(1) by (simp add: s' step_def update_def setText_def stream_ok_def isRefreshing_def)
next
  case (CallSuccess i u)
  let ?ta = "set_icon i (Glyph (case successIcon (spinnerOptions (spinners s i)) of
                                    Some ic \<Rightarrow> ic | None \<Rightarrow> DEFAULT_TTY_SUCCESS_ICON))
                 (case u of None \<Rightarrow> s | Some v \<Rightarrow> setText i v s)"
  have calm: "calm s ?ta"
    by (simp add: calm_def set_icon_def setText_def split: option.splits)
  have e: "s' = final_state (stop x i ?ta)"
    by (simp add: s' CallSuccess step_def success_eq)
  show ?thesis
    using rows_transfer [OF calm stop_rows [OF calm_stream_ok [OF calm assms(1)] e]]
    by (simp add: CallSuccess)
next
  case (CallFail i u)
  let ?ta = "set_icon i (Glyph (case failIcon (spinnerOptions (spinners s i)) of
                                    Some ic \<Rightarrow> ic | None \<Rightarrow> DEFAULT_TTY_FAIL_ICON))
                 (case u of None \<Rightarrow> s | Some v \<Rightarrow> setText i v s)"
  have calm: "calm s ?ta"
    by (simp add: calm_def set_icon_def setText_def split: option.splits)
  have e: "s' = final_state (stop x i ?ta)"
    by (simp add: s' CallFail step_def fail_eq)
  show ?thesis
    using rows_transfer [OF calm stop_rows [OF calm_stream_ok [OF calm assms(1)] e]]
    by (simp add: CallFail)
next
  case (CallStop i)
  then have e: "s' = final_state (stop x i s)"
    by (simp add: s' step_def)
  show ?thesis
    using stop_rows [OF assms(1) e] by (simp add: CallStop)
next
  case (CallLog l lv args)
  have "calm s (final_state (logger_log x l lv args s))"
    using calm_logger_log [of s x l lv args] by (simp add: preserves_def calm_refl)
  then have "calm s s'"
    by (simp add: s' CallLog step_def)
  then show ?thesis
    using assms(1) calm_stream_ok [of s s'] by (simp add: calm_def)
next
  case (CallSpin i l lv m opts)
  let ?t0 = "set_icon i
       (Frames (js_split (case runningIcon opts of Some r \<Rightarrow> r | None \<Rightarrow> DEFAULT_TTY_SPINNER)
                  (ascii ''||'')))
       (setText i m (s\<lparr>spinners := (spinners s)(i :=
                  \<lparr>sp_prefix = (case opt_prefix opts of None \<Rightarrow> PrefixUndefined | Some p \<Rightarrow> PrefixText p),
                   sp_text = [], iconIndex = 0, icon = NoIcon, sp_logger = l, sp_level = lv,
                   started = None, stopped = None, spinnerOptions = opts\<lparr>opt_text := m\<rparr>\<rparr>)\<rparr>))"
  have calm: "calm s ?t0"
    by (simp add: calm_def set_icon_def setText_def)
  have e: "s' = final_state (start x i ?t0)"
    by (simp add: s' CallSpin step_def logMethod_spin_final)
  show ?thesis
    using rows_transfer [OF calm start_rows [OF calm_stream_ok [OF calm assms(1)] e]]
    by (simp add: CallSpin)
next
  case (SetEnabled l b)
  then show ?thesis
    using assms(1) by (simp add: s' step_def stream_ok_def isRefreshing_def)
next
  case (StreamFault f)
  then show ?thesis
    using assms by (simp add: s' step_def stream_ok_def isRefreshing_def admitted_def)
qed

section \<open>Teardown\<close>

text \<open>
  C5. On a working stream, when the only live handle stops while the multiplexer is
  active, \<open>stop\<close> returns and the terminal receives exactly one more frame (the erase of
  the rows counted so far and one write of the buffered lines followed by the handle's
  final rendering), then the line break, then the sequence that shows the cursor; one
  registration of the resize listener is removed, both interval timers are cleared and
  their handles unset, the stored row count is 0, the live set and the buffer are empty;
  and whatever happens afterwards, as long as no handle is started, the terminal stream
  receives nothing more. (Lines logged while idle go to the console, not through the
  multiplexer.)
\<close>

theorem teardown_after_last_handle:
  assumes "stdOutFault s = None" "isRefreshing s" "runningSpinners s = [i]"
    "started (spinners s i) \<noteq> None" "stopped (spinners s i) = None"
  shows "\<exists>s'. stop x i s = Normal s'
     \<and> tty s' = tty s @ clear_ops (currentBufferHeight s)
         @ [Write (js_join (EOL x) (newBuffered s @
              [replaceAll (toString x (s\<lparr>spinners := (spinners s)(i := (spinners s i)
                   \<lparr>stopped := Some (clock s)\<rparr>)\<rparr>) i None) [TAB] [SPACE, SPACE, SPACE]])),
            Write (EOL x), Write CURSOR_SHOW]
     \<and> resizeListeners s' = resizeListeners s - 1
     \<and> timers s' = filter (\<lambda>e. Some (fst e) \<noteq> spinnersRefreshInterval s
                               \<and> Some (fst e) \<noteq> ttyRefreshInterval s) (timers s)
     \<and> spinnersRefreshInterval s' = None \<and> ttyRefreshInterval s' = None
     \<and> currentBufferHeight s' = 0 \<and> runningSpinners s' = [] \<and> newBuffered s' = []
     \<and> (\<forall>evs. (\<forall>ev \<in> set evs. \<not> starts ev) \<longrightarrow> tty (final_state (run x evs s')) = tty s')"
proof -
  obtain s' where s': "stop x i s = Normal s'" 
    and fields: "tty s' = tty s @ clear_ops (currentBufferHeight s)
         @ [Write (js_join (EOL x) (newBuffered s @
              [replaceAll (toString x (s\<lparr>spinners := (spinners s)(i := (spinners s i)
                   \<lparr>stopped := Some (clock s)\<rparr>)\<rparr>) i None) [TAB] [SPACE, SPACE, SPACE]])),
            Write (EOL x), Write CURSOR_SHOW]"
      "resizeListeners s' = resizeListeners s - 1"
      "timers s' = filter (\<lambda>e. Some (fst e) \<noteq> spinnersRefreshInterval s
                               \<and> Some (fst e) \<noteq> ttyRefreshInterval s) (timers s)"
      "spinnersRefreshInterval s' = None" "ttyRefreshInterval s' = None"
      "currentBufferHeight s' = 0" "runningSpinners s' = []" "newBuffered s' = []"
    using stop_last_ok [OF assms, of x] by simp
  have "quiet (tty s') s'"
    using fields by (simp add: quiet_def isRefreshing_def)
  then have "tty (final_state (run x evs s')) = tty s'" if "\<forall>ev \<in> set evs. \<not> starts ev" for evs
    using preservesD [OF quiet_run [OF that, of "tty s'" x]] by (simp add: quiet_def)
  then show ?thesis
    using s' fields by simp
qed

theorem teardown_after_last_handle_witness:
  "stdOutFault active0 = None \<and> isRefreshing active0 \<and> runningSpinners active0 = [0]
   \<and> started (spinners active0 0) \<noteq> None \<and> stopped (spinners active0 0) = None
   \<and> (\<exists>s'. stop ext0 0 active0 = Normal s'
        \<and> tty s' = tty active0 @
            [CursorTo 0, ClearLine 1, Write (ascii '' - Building''), Write [LF], Write CURSOR_SHOW]
        \<and> resizeListeners s' = 0 \<and> timers s' = []
        \<and> spinnersRefreshInterval s' = None \<and> ttyRefreshInterval s' = None
        \<and> currentBufferHeight s' = 0 \<and> runningSpinners s' = [] \<and> newBuffered s' = []
        \<and> tty (final_state (run ext0 [TimerFires 0, TimerFires 1, Resized 40,
               CallUpdate 0 (ascii ''late''), CallStop 0, CallSuccess 0 None] s')) = tty s')"
  using teardown_after_last_handle [of active0 0 ext0]
  by (simp add: model_defs sample_defs Let_def ascii_def SPACE_def LF_def TAB_def
        clear_ops_def row_ops_def starts_def)

section \<open>Tabs in the buffer\<close>

text \<open>
  C9. \<open>addContentToBuffer\<close> appends the string with each tab replaced by three spaces;
  and since nothing else appends to the buffer, a buffer without tabs stays without tabs
  over every sequence of events (logged lines, stopped handles and all others), whether
  a call returns or throws.
\<close>

theorem buffer_holds_no_tab:
  "newBuffered (addContentToBuffer str s) =
     newBuffered s @ [concat (map (\<lambda>c. if c = TAB then [SPACE, SPACE, SPACE] else [c]) str)]
   \<and> (no_tab_buffer s \<longrightarrow> no_tab_buffer (final_state (run x evs s)))"
  using preservesD [OF ntb_run, of s x evs]
  by (simp add: addContentToBuffer_def replaceAll_single)

theorem buffer_holds_no_tab_witness:
  "no_tab_buffer active0
   \<and> newBuffered (addContentToBuffer (ascii ''a'' @ [TAB] @ ascii ''b'') active0) = [ascii ''a   b'']
   \<and> newBuffered (final_state (run ext0
         [CallLog RootLogger info [ascii ''a'' @ [TAB] @ ascii ''b''],
          CallUpdate 0 (TAB # ascii ''done''), CallSpin 1 RootLogger info (ascii ''next'') (spinnerOptions spinner0),
          CallStop 0] active0))
       = [ascii ''a   b'', ascii '' -    done'']
   \<and> no_tab_buffer (final_state (run ext0
         [CallLog RootLogger info [ascii ''a'' @ [TAB] @ ascii ''b''],
          CallUpdate 0 (TAB # ascii ''done''), CallSpin 1 RootLogger info (ascii ''next'') (spinnerOptions spinner0),
          CallStop 0] active0))"
  using buffer_holds_no_tab [of "ascii ''a'' @ [TAB] @ ascii ''b''" active0 ext0
      "[CallLog RootLogger info [ascii ''a'' @ [TAB] @ ascii ''b''],
          CallUpdate 0 (TAB # ascii ''done''), CallSpin 1 RootLogger info (ascii ''next'') (spinnerOptions spinner0),
          CallStop 0]"]
  by (simp add: model_defs sample_defs Let_def ascii_def SPACE_def LF_def TAB_def no_tab_buffer_def
        new_TTYSpinner_def logMethod_spin_def)

section \<open>The order within a frame\<close>

lemma foldl_addContentToBuffer:
  "foldl (\<lambda>s line. addContentToBuffer line s) s lines =
     s\<lparr>newBuffered := newBuffered s @ map (\<lambda>line. replaceAll line [TAB] [SPACE, SPACE, SPACE]) lines\<rparr>"
  by (induction lines arbitrary: s) (simp_all add: addContentToBuffer_def)

text \<open>
  C3. On a working stream, a redraw of the active multiplexer writes, after the erase, one
  string: the buffered lines (those buffered before, then the lines added since, in their
  order of arrival, tabs replaced) followed by the renderings of the live handles in the
  order of the live set, joined by the line break; it leaves the buffer empty.
  Registering a handle puts it last in the live set, unless it is there already.
\<close>

theorem frame_order:
  assumes "stdOutFault s = None" "isRefreshing s"
  shows "\<exists>s'. refreshTTY x (foldl (\<lambda>s line. addContentToBuffer line s) s lines) = Normal s'
     \<and> tty s' = tty s @ clear_ops (currentBufferHeight s) @
         [Write (js_join (EOL x)
            (newBuffered s @ map (\<lambda>line. replaceAll line [TAB] [SPACE, SPACE, SPACE]) lines
             @ map (\<lambda>i. toString x s i None) (runningSpinners s)))]
     \<and> newBuffered s' = []
     \<and> runningSpinners (runningSpinners_add i s) =
         (if i \<in> set (runningSpinners s) then runningSpinners s else runningSpinners s @ [i])"
  using assms
  by (simp add: foldl_addContentToBuffer refreshTTY_ok isRefreshing_def frame_def renderings_def
        toString_def runningSpinners_add_def)

theorem frame_order_witness:
  "stdOutFault active0 = None \<and> isRefreshing active0
   \<and> (\<exists>s'. refreshTTY ext0
              (foldl (\<lambda>s line. addContentToBuffer line s) active0 [ascii ''note'', ascii ''more''])
            = Normal s'
        \<and> tty s' = tty active0 @
            [CursorTo 0, ClearLine 1,
             Write (ascii ''note'' @ [LF] @ ascii ''more'' @ [LF] @ ascii '' - Building'')]
        \<and> newBuffered s' = [])
   \<and> runningSpinners (runningSpinners_add 1 active0) = [0, 1]"
  using frame_order [of active0 ext0 "[ascii ''note'', ascii ''more'']" 1]
  by (simp add: model_defs sample_defs Let_def ascii_def SPACE_def LF_def TAB_def
        clear_ops_def row_ops_def)

section \<open>The animation is cyclic\<close>

lemma spin_once:
  assumes "icon (spinners s i) = Frames fs" "1 < length fs"
    "started (spinners s i) \<noteq> None" "stopped (spinners s i) = None"
    "iconIndex (spinners s i) < length fs"
  shows "spin i s =
     s\<lparr>spinners := (spinners s)(i := (spinners s i)\<lparr>iconIndex :=
          Suc (iconIndex (spinners s i)) mod length fs\<rparr>)\<rparr>"
proof (cases "Suc (iconIndex (spinners s i)) = length fs")
  case True
  then show ?thesis
    using assms by (simp add: spin_def icon_length_def Let_def)
next
  case False
  then have "Suc (iconIndex (spinners s i)) < length fs"
    using assms(5) by arith
  then show ?thesis
    using assms by (simp add: spin_def icon_length_def Let_def)
qed

lemma spin_frames:
  assumes "icon (spinners s i) = Frames fs" "1 < length fs"
    "started (spinners s i) \<noteq> None" "stopped (spinners s i) = None"
    "iconIndex (spinners s i) < length fs"
  shows "(spin i ^^ k) s =
     s\<lparr>spinners := (spinners s)(i := (spinners s i)\<lparr>iconIndex :=
          (iconIndex (spinners s i) + k) mod length fs\<rparr>)\<rparr>"
proof (induction k)
  case 0
  then show ?case using assms by simp
next
  case (Suc k)
  let ?sk = "s\<lparr>spinners := (spinners s)(i := (spinners s i)\<lparr>iconIndex :=
          (iconIndex (spinners s i) + k) mod length fs\<rparr>)\<rparr>"
  have below: "(iconIndex (spinners s i) + k) mod length fs < length fs"
    using assms(2) by (intro mod_less_divisor) arith
  have "(spin i ^^ Suc k) s = spin i ((spin i ^^ k) s)"
    by simp
  also have "\<dots> = spin i ?sk"
    by (simp only: Suc)
  also have "\<dots> = ?sk\<lparr>spinners := (spinners ?sk)(i := (spinners ?sk i)\<lparr>iconIndex :=
          Suc (iconIndex (spinners ?sk i)) mod length fs\<rparr>)\<rparr>"
    by (rule spin_once) (use assms below in simp_all)
  also have "\<dots> = s\<lparr>spinners := (spinners s)(i := (spinners s i)\<lparr>iconIndex :=
          (iconIndex (spinners s i) + Suc k) mod length fs\<rparr>)\<rparr>"
    by (simp add: mod_Suc_eq)
  finally show ?case .
qed

text \<open>
  C7. For a handle that is started and not stopped, whose icon is a sequence of
  \<open>n > 1\<close> frames and whose index is below \<open>n\<close>, \<open>k\<close> animation advances move the
  index to \<open>(index + k) mod n\<close>, which stays below \<open>n\<close>; \<open>n\<close> advances give the state
  back, so an index that was 0 (as the icon setter leaves it) is 0 again.
\<close>

theorem animation_is_cyclic:
  assumes "icon (spinners s i) = Frames fs" "1 < length fs"
    "started (spinners s i) \<noteq> None" "stopped (spinners s i) = None"
    "iconIndex (spinners s i) < length fs"
  shows "iconIndex (spinners ((spin i ^^ k) s) i) = (iconIndex (spinners s i) + k) mod length fs
     \<and> iconIndex (spinners ((spin i ^^ k) s) i) < length fs
     \<and> (spin i ^^ length fs) s = s
     \<and> (iconIndex (spinners s i) = 0 \<longrightarrow> iconIndex (spinners ((spin i ^^ length fs) s) i) = 0)"
proof -
  have pos: "0 < length fs"
    using assms(2) by arith
  show ?thesis
    using assms pos by (simp add: spin_frames [OF assms])
qed

theorem animation_is_cyclic_witness:
  "icon (spinners active0 0) = Frames [ascii ''-'', ascii ''+'']
   \<and> started (spinners active0 0) \<noteq> None \<and> stopped (spinners active0 0) = None
   \<and> iconIndex (spinners active0 0) = 0
   \<and> iconIndex (spinners ((spin 0 ^^ 3) active0) 0) = 1
   \<and> (spin 0 ^^ 2) active0 = active0
   \<and> length (js_split DEFAULT_TTY_SPINNER (ascii ''||'')) = 10
   \<and> iconIndex (spinners ((spin 2 ^^ 10) braille0) 2) = 0
   \<and> iconIndex (spinners ((spin 2 ^^ 13) braille0) 2) = 3"
proof -
  have h: "icon (spinners active0 0) = Frames [ascii ''-'', ascii ''+'']"
    "1 < length [ascii ''-'', ascii ''+'']"
    "started (spinners active0 0) \<noteq> None" "stopped (spinners active0 0) = None"
    "iconIndex (spinners active0 0) < length [ascii ''-'', ascii ''+'']"
    by (simp_all add: sample_defs)
  have z: "iconIndex (spinners active0 0) = 0"
    by (simp add: sample_defs)
  have len: "length [ascii ''-'', ascii ''+''] = 2"
    by simp
  note cyc = animation_is_cyclic [OF h, of 3, unfolded len z]
  have two: "iconIndex (spinners ((spin 0 ^^ 3) active0) 0) = 1" "(spin 0 ^^ 2) active0 = active0"
    using cyc by simp_all
  have len10: "length (js_split DEFAULT_TTY_SPINNER (ascii ''||'')) = 10"
    by (simp add: default_frames)
  have b: "icon (spinners braille0 2) = Frames (js_split DEFAULT_TTY_SPINNER (ascii ''||''))"
    "1 < length (js_split DEFAULT_TTY_SPINNER (ascii ''||''))"
    "started (spinners braille0 2) \<noteq> None" "stopped (spinners braille0 2) = None"
    "iconIndex (spinners braille0 2) < length (js_split DEFAULT_TTY_SPINNER (ascii ''||''))"
    by (simp_all add: braille0_handle len10)
  have ten: "iconIndex (spinners ((spin 2 ^^ 10) braille0) 2) = 0"
    "iconIndex (spinners ((spin 2 ^^ 13) braille0) 2) = 3"
    using animation_is_cyclic [OF b, of 10, unfolded len10 braille0_handle(4)]
      animation_is_cyclic [OF b, of 13, unfolded len10 braille0_handle(4)]
    by simp_all
  show ?thesis
    using h z two len10 ten by simp
qed

section \<open>The stored row count\<close>

text \<open>
  The stored row count is not the height of the string that was written: with one
  buffered line and one live handle the redraw writes two rows and stores the count 1.
  And the erase of a resize does not clear the rows of the frame that is on the screen:
  after the frame of \<open>active0\<close>, one row at 80 columns, an update of the text and a
  resize to 4 columns, the erase clears 2 rows, the height of the new text at the new
  width, where the frame on the screen takes 1 row at the old width and 3 at the new one.
\<close>

theorem occupied_rows_counterexample:
  "stdOutFault noted0 = None \<and> isRefreshing noted0
   \<and> refreshTTY ext0 noted0 =
       Normal (noted0\<lparr>tty := tty noted0 @ [CursorTo 0, ClearLine 1,
                          Write (ascii ''note'' @ [LF] @ ascii '' - Building'')],
                 currentBufferHeight := 1, newBuffered := []\<rparr>)
   \<and> getContentHeight ext0 (columns noted0) (ascii ''note'' @ [LF] @ ascii '' - Building'') = 2
   \<and> currentBufferHeight (final_state (refreshTTY ext0 noted0))
       \<noteq> getContentHeight ext0 (columns noted0) (frame ext0 noted0)
   \<and> last (tty active0) = Write (ascii '' - Building'')
   \<and> columns active0 = 80
   \<and> getContentHeight ext0 80 (ascii '' - Building'') = 1
   \<and> getContentHeight ext0 4 (ascii '' - Building'') = 3
   \<and> tty (final_state (run ext0 [CallUpdate 0 (ascii ''Link''), Resized 4] active0))
       = tty active0 @ [CursorTo 0, ClearLine 1, MoveCursor 0 (- 1), ClearLine 1,
                        Write (ascii '' - Link'')]"
  by (simp add: noted0_def model_defs sample_defs Let_def ascii_def SPACE_def LF_def TAB_def
        frame_def renderings_def)

text \<open>
  C1, as amended. Take a state in which the stream works, the terminal is at least one
  column wide and the resize listener is registered as \<open>startRefresh\<close> and
  \<open>stopRefreshTTY\<close> leave it, and any sequence of events that leave the stream working:
  timers firing, resizes to at least one column, clock readings, loggers being switched,
  lines logged, handles opened, started, updated, stopped, succeeded or failed. Follow
  the events with a number: the stored row count to begin with, and from each redraw on
  the number of rows that the renderings of the live handles written by this redraw take
  at the width of this redraw (the buffered lines written in the same frame are not
  counted). Then at every event the stored row count is this number; an event that
  sends anything to the terminal sends exactly one redraw; and the erase of that redraw,
  be it the redraw of a timer, the first one of an activation or the last one of a
  teardown, clears exactly that many rows. The redraw of a resize is the exception:
  \<open>handleTerminalResize\<close> first stores the number of rows that the current renderings
  of the live handles take at the new width, and its erase clears that many. The state
  after the events is again one in which the stream works.
\<close>

theorem occupied_rows_invariant:
  assumes "stream_ok s" "\<forall>ev \<in> set evs. admitted ev"
  shows "counts_rows x (currentBufferHeight s) evs s \<and> stream_ok (after x evs s)"
  using assms
proof (induction evs arbitrary: s)
  case Nil
  then show ?case by (simp add: after_Nil)
next
  case (Cons ev evs)
  let ?s' = "final_state (step x ev s)"
  have st: "stream_ok ?s' \<and> (if tty ?s' = tty s then currentBufferHeight ?s' = currentBufferHeight s
           else redraws x (case ev of Resized w \<Rightarrow> handle_rows x ?s' | _ \<Rightarrow> currentBufferHeight s) s ?s')"
    by (rule step_rows) (use Cons.prems in simp_all)
  then have ih: "counts_rows x (currentBufferHeight ?s') evs ?s' \<and> stream_ok (after x evs ?s')"
    using Cons.IH [of ?s'] Cons.prems(2) by simp
  show ?case
  proof (cases "tty ?s' = tty s")
    case True
    then show ?thesis
      using st ih by (simp add: after_Cons Let_def)
  next
    case False
    then have "currentBufferHeight ?s' = handle_rows x ?s'"
      using st by (auto simp add: redraws_def)
    then show ?thesis
      using st ih False by (simp add: after_Cons Let_def)
  qed
qed

theorem occupied_rows_invariant_witness:
  "stream_ok idle0
   \<and> admitted (CallStart 0) \<and> admitted (CallLog RootLogger info [ascii ''note''])
   \<and> admitted (TimerFires 1) \<and> admitted (Resized 4) \<and> admitted (CallStop 0)
   \<and> counts_rows ext0 0
        [CallStart 0, CallLog RootLogger info [ascii ''note''], TimerFires 1, Resized 4, CallStop 0]
        idle0
   \<and> tty (after ext0
        [CallStart 0, CallLog RootLogger info [ascii ''note''], TimerFires 1, Resized 4, CallStop 0]
        idle0)
       = [Write CURSOR_HIDE, CursorTo 0, Write (ascii '' - Building''),
          CursorTo 0, ClearLine 1, Write (ascii ''note'' @ [LF] @ ascii '' - Building''),
          CursorTo 0, ClearLine 1, MoveCursor 0 (- 1), ClearLine 1, MoveCursor 0 (- 1), ClearLine 1,
          Write (ascii '' - Building''),
          CursorTo 0, ClearLine 1, MoveCursor 0 (- 1), ClearLine 1, MoveCursor 0 (- 1), ClearLine 1,
          Write (ascii '' - Building''), Write [LF], Write CURSOR_SHOW]"
proof -
  let ?evs = "[CallStart 0, CallLog RootLogger info [ascii ''note''], TimerFires 1, Resized 4, CallStop 0]"
  define drawn where "drawn = active0\<lparr>tty := tty active0 @
     [CursorTo 0, ClearLine 1, Write (ascii ''note'' @ [LF] @ ascii '' - Building'')]\<rparr>"
  define resized where "resized = drawn\<lparr>columns := 4, currentBufferHeight := 3, tty := tty drawn @
     [CursorTo 0, ClearLine 1, MoveCursor 0 (- 1), ClearLine 1, MoveCursor 0 (- 1), ClearLine 1,
      Write (ascii '' - Building'')]\<rparr>"
  have ok: "stream_ok idle0"
    by (simp add: stream_ok_def isRefreshing_def idle0_def)
  have ad: "admitted (CallStart 0)" "admitted (CallLog RootLogger info [ascii ''note''])"
    "admitted (TimerFires 1)" "admitted (Resized 4)" "admitted (CallStop 0)"
    by (simp_all add: admitted_def)
  have u3: "[0 ..< 3] = [0, 1, 2 :: nat]"
    by code_simp
  have s1: "final_state (step ext0 (CallStart 0) idle0) = active0"
    using active0_reached by (simp add: step_def)
  have s2: "final_state (step ext0 (CallLog RootLogger info [ascii ''note'']) active0) = noted0"
    by (simp add: noted0_def model_defs sample_defs Let_def ascii_def SPACE_def LF_def TAB_def)
  have s3: "final_state (step ext0 (TimerFires 1) noted0) = drawn"
    by (simp add: drawn_def noted0_def model_defs sample_defs Let_def ascii_def SPACE_def LF_def TAB_def)
  have s4: "final_state (step ext0 (Resized 4) drawn) = resized"
    by (simp add: u3 resized_def drawn_def model_defs sample_defs Let_def ascii_def SPACE_def LF_def
          TAB_def)
  have s5: "tty (final_state (step ext0 (CallStop 0) resized)) = tty resized @
     [CursorTo 0, ClearLine 1, MoveCursor 0 (- 1), ClearLine 1, MoveCursor 0 (- 1), ClearLine 1,
      Write (ascii '' - Building''), Write [LF], Write CURSOR_SHOW]"
    by (simp add: u3 resized_def drawn_def model_defs sample_defs Let_def ascii_def SPACE_def LF_def
          TAB_def)
  have "tty (after ext0 ?evs idle0) = tty (final_state (step ext0 (CallStop 0) resized))"
    by (simp only: after_def foldl_Cons foldl_Nil s1 s2 s3 s4)
  also have "\<dots> = [Write CURSOR_HIDE, CursorTo 0, Write (ascii '' - Building''),
          CursorTo 0, ClearLine 1, Write (ascii ''note'' @ [LF] @ ascii '' - Building''),
          CursorTo 0, ClearLine 1, MoveCursor 0 (- 1), ClearLine 1, MoveCursor 0 (- 1), ClearLine 1,
          Write (ascii '' - Building''),
          CursorTo 0, ClearLine 1, MoveCursor 0 (- 1), ClearLine 1, MoveCursor 0 (- 1), ClearLine 1,
          Write (ascii '' - Building''), Write [LF], Write CURSOR_SHOW]"
    unfolding s5 by (simp add: resized_def drawn_def active0_def idle0_def)
  finally have tt: "tty (after ext0 ?evs idle0) =
         [Write CURSOR_HIDE, CursorTo 0, Write (ascii '' - Building''),
          CursorTo 0, ClearLine 1, Write (ascii ''note'' @ [LF] @ ascii '' - Building''),
          CursorTo 0, ClearLine 1, MoveCursor 0 (- 1), ClearLine 1, MoveCursor 0 (- 1), ClearLine 1,
          Write (ascii '' - Building''),
          CursorTo 0, ClearLine 1, MoveCursor 0 (- 1), ClearLine 1, MoveCursor 0 (- 1), ClearLine 1,
          Write (ascii '' - Building''), Write [LF], Write CURSOR_SHOW]" .
  have h0: "currentBufferHeight idle0 = 0"
    by (simp add: idle0_def)
  have "\<forall>ev \<in> set ?evs. admitted ev"
    using ad by simp
  then have "counts_rows ext0 (currentBufferHeight idle0) ?evs idle0"
    using occupied_rows_invariant [OF ok, of ?evs ext0] by blast
  then have "counts_rows ext0 0 ?evs idle0"
    unfolding h0 .
  then show ?thesis
    using ok ad tt by blast
qed

section \<open>A handle of a disabled logger\<close>

lemma unstarted_stop: "keeps (unstarted s0 i) (stop x i)"
  by (rule keepsI) (simp add: stop_def unstarted_def)

lemma unstarted_success: "keeps (unstarted s0 i) (success x i u)"
  unfolding success_def
  by (intro keeps_intros unstarted_stop)
     (simp_all add: unstarted_def setText_def set_icon_def split: option.splits)

lemma unstarted_fail: "keeps (unstarted s0 i) (fail x i u)"
  unfolding fail_def
  by (intro keeps_intros unstarted_stop)
     (simp_all add: unstarted_def setText_def set_icon_def split: option.splits)

lemma unstarted_step: "is_terminal_call i ev \<Longrightarrow> keeps (unstarted s0 i) (step x ev)"
  using unstarted_stop [of s0 i x] unstarted_success [of s0 i x] unstarted_fail [of s0 i x]
  by (cases ev) (simp_all add: is_terminal_call_def step_def keeps_def)

lemma unstarted_run:
  "\<forall>ev \<in> set evs. is_terminal_call i ev \<Longrightarrow> keeps (unstarted s0 i) (run x evs)"
  by (rule keeps_run) (simp add: unstarted_step)

text \<open>
  C10. If the root logger or the handle's logger is disabled when \<open>start\<close> is called on
  a handle that was never started, \<open>start\<close> returns the state unchanged; and every
  sequence of \<open>stop\<close>, \<open>success\<close> and \<open>fail\<close> calls on the handle returns, leaves the
  handle unstarted and changes nothing but fields of this handle object (its text and
  icon): nothing is written to the terminal or the console, nothing buffered, nothing
  registered, no timer set.
\<close>

theorem disabled_start_is_noop:
  assumes "\<not> enabled (options (loggers s RootLogger))
           \<or> \<not> enabled (options (loggers s (sp_logger (spinners s i))))"
    and "started (spinners s i) = None"
    and "\<forall>ev \<in> set evs. is_terminal_call i ev"
  shows "start x i s = Normal s
     \<and> (\<exists>s'. run x evs s = Normal s'
          \<and> s'\<lparr>spinners := spinners s\<rparr> = s
          \<and> (\<forall>j. j \<noteq> i \<longrightarrow> spinners s' j = spinners s j)
          \<and> started (spinners s' i) = None
          \<and> tty s' = tty s \<and> console s' = console s \<and> newBuffered s' = newBuffered s
          \<and> runningSpinners s' = runningSpinners s \<and> timers s' = timers s
          \<and> spinnersRefreshInterval s' = spinnersRefreshInterval s)"
proof -
  have "start x i s = Normal s"
    using assms(1) by (auto simp add: start_def)
  moreover have "unstarted s i s"
    using assms(2) by (simp add: unstarted_def)
  then obtain s' where s': "run x evs s = Normal s'" "unstarted s i s'"
    using keepsD [OF unstarted_run [OF assms(3)]] by blast
  moreover have "tty s' = tty s \<and> console s' = console s \<and> newBuffered s' = newBuffered s
          \<and> runningSpinners s' = runningSpinners s \<and> timers s' = timers s
          \<and> spinnersRefreshInterval s' = spinnersRefreshInterval s"
  proof -
    have eq: "s'\<lparr>spinners := spinners s\<rparr> = s"
      using s'(2) by (simp add: unstarted_def)
    have "tty (s'\<lparr>spinners := spinners s\<rparr>) = tty s'" "console (s'\<lparr>spinners := spinners s\<rparr>) = console s'"
      "newBuffered (s'\<lparr>spinners := spinners s\<rparr>) = newBuffered s'"
      "runningSpinners (s'\<lparr>spinners := spinners s\<rparr>) = runningSpinners s'"
      "timers (s'\<lparr>spinners := spinners s\<rparr>) = timers s'"
      "spinnersRefreshInterval (s'\<lparr>spinners := spinners s\<rparr>) = spinnersRefreshInterval s'"
      by simp_all
    then show ?thesis
      unfolding eq by simp
  qed
  ultimately show ?thesis
    by (simp add: unstarted_def)
qed

theorem disabled_start_is_noop_witness:
  "\<not> enabled (options (loggers disabled0 RootLogger))
   \<and> started (spinners disabled0 0) = None
   \<and> is_terminal_call 0 (CallSuccess 0 (Some (ascii ''Built'')))
   \<and> is_terminal_call 0 (CallStop 0) \<and> is_terminal_call 0 (CallFail 0 None)
   \<and> start ext0 0 disabled0 = Normal disabled0
   \<and> (\<exists>s'. run ext0 [CallSuccess 0 (Some (ascii ''Built'')), CallStop 0, CallFail 0 None] disabled0
             = Normal s'
        \<and> started (spinners s' 0) = None \<and> sp_text (spinners s' 0) = ascii ''Built''
        \<and> tty s' = [] \<and> console s' = [] \<and> newBuffered s' = [] \<and> runningSpinners s' = []
        \<and> timers s' = [] \<and> spinnersRefreshInterval s' = None)"
  using disabled_start_is_noop [of disabled0 0
      "[CallSuccess 0 (Some (ascii ''Built'')), CallStop 0, CallFail 0 None]" ext0]
  by (simp add: disabled0_def model_defs sample_defs Let_def ascii_def is_terminal_call_def)

section \<open>Terminal calls\<close>

text \<open>
  \<open>update\<close> after a terminal call is not a no-op: after \<open>stop\<close> of the live handle of
  \<open>active0\<close>, \<open>update\<close> replaces the text of the stopped handle. And a terminal call
  after another one changes the handle: \<open>success\<close> after \<open>stop\<close> replaces its icon.
\<close>

theorem update_after_stop_counterexample:
  "stopped (spinners (final_state (stop ext0 0 active0)) 0) \<noteq> None
   \<and> update 0 (ascii ''late'') (final_state (stop ext0 0 active0))
       \<noteq> Normal (final_state (stop ext0 0 active0))
   \<and> sp_text (spinners (final_state (stop ext0 0 active0)) 0) = ascii ''Building''
   \<and> sp_text (spinners (final_state (update 0 (ascii ''late'') (final_state (stop ext0 0 active0)))) 0)
       = ascii ''late''
   \<and> icon (spinners (final_state (stop ext0 0 active0)) 0) = Frames [ascii ''-'', ascii ''+'']
   \<and> icon (spinners (final_state (success ext0 0 None (final_state (stop ext0 0 active0)))) 0)
       = Glyph (ascii ''ok'')"
proof -
  have st: "sp_text (spinners (final_state (stop ext0 0 active0)) 0) = ascii ''Building''"
    "stopped (spinners (final_state (stop ext0 0 active0)) 0) \<noteq> None"
    "icon (spinners (final_state (stop ext0 0 active0)) 0) = Frames [ascii ''-'', ascii ''+'']"
    "icon (spinners (final_state (success ext0 0 None (final_state (stop ext0 0 active0)))) 0)
       = Glyph (ascii ''ok'')"
    by (simp_all add: model_defs sample_defs Let_def ascii_def SPACE_def LF_def TAB_def)
  have up: "sp_text (spinners (final_state (update 0 (ascii ''late'') s)) 0) = ascii ''late''" for s
    by (simp add: update_def setText_def)
  have "ascii ''late'' \<noteq> ascii ''Building''"
    by (simp add: ascii_def)
  then have "update 0 (ascii ''late'') (final_state (stop ext0 0 active0))
       \<noteq> Normal (final_state (stop ext0 0 active0))"
    using st(1) up [of "final_state (stop ext0 0 active0)"] by auto
  then show ?thesis
    using st up by simp
qed

text \<open>
  C2, as amended. Let \<open>s'\<close> be the state after \<open>stop\<close>, \<open>success(text)\<close> or
  \<open>fail(text)\<close> on a handle, whether the call returned or threw. The same call again
  returns \<open>s'\<close> unchanged, also at a later clock reading. In every state in which the
  handle is not running (it is stopped, or was never started), \<open>stop\<close> returns the
  state unchanged, and the terminal call returns a state that differs in nothing but the
  text, the icon and the icon index of this handle object: nothing is sent, buffered,
  logged or registered. \<open>update(text)\<close> after the terminal call returns the state with the
  handle's text replaced and nothing else changed. If the handle was in the live set only
  while it was running, it is not in the live set of \<open>s'\<close>, and the renderings of the
  next frame are the same with and without the update. If moreover it had been started,
  then after every sequence of later events that builds no new object at its reference,
  the handle is still stopped and outside the live set, and the state differs from the
  one that the same events reach without the update in nothing but the text of this
  handle: what was written to the terminal, buffered and logged is the same.
\<close>

theorem terminal_calls_idempotent:
  assumes "is_terminal_call i ev" and s': "s' = final_state (step x ev s)"
  shows "step x ev s' = Normal s'
     \<and> (\<forall>t. step x ev (s'\<lparr>clock := t\<rparr>) = Normal (s'\<lparr>clock := t\<rparr>))
     \<and> (\<forall>s1. \<not> (stopped (spinners s1 i) = None \<and> started (spinners s1 i) \<noteq> None) \<longrightarrow>
            stop x i s1 = Normal s1
            \<and> (\<exists>s2. step x ev s1 = Normal s2 \<and> touches_only i s1 s2))
     \<and> update i u s' = Normal (s'\<lparr>spinners := (spinners s')(i := (spinners s' i)\<lparr>sp_text := u\<rparr>)\<rparr>)
     \<and> (i \<notin> set (runningSpinners s)
          \<or> (started (spinners s i) \<noteq> None \<and> stopped (spinners s i) = None) \<longrightarrow>
         i \<notin> set (runningSpinners s')
         \<and> renderings x (final_state (update i u s')) = renderings x s')
     \<and> (started (spinners s i) \<noteq> None
          \<and> (i \<notin> set (runningSpinners s) \<or> stopped (spinners s i) = None) \<longrightarrow>
         (\<forall>evs. (\<forall>e \<in> set evs. \<not> creates i e) \<longrightarrow>
            finished i (after x evs (final_state (update i u s')))
            \<and> (\<exists>w. after x evs (final_state (update i u s')) = setText i w (after x evs s'))
            \<and> tty (after x evs (final_state (update i u s'))) = tty (after x evs s')
            \<and> newBuffered (after x evs (final_state (update i u s'))) = newBuffered (after x evs s')
            \<and> console (after x evs (final_state (update i u s'))) = console (after x evs s')))"
proof -
  have again: "step x ev (s'\<lparr>clock := t\<rparr>) = Normal (s'\<lparr>clock := t\<rparr>)" for t
  proof (cases ev)
    case (CallStop j)
    then show ?thesis
      using assms stop_again_after(1) [of s' x i s t] by (simp add: is_terminal_call_def step_def)
  next
    case (CallSuccess j v)
    then show ?thesis
      using assms success_again [of s' x i v s t] by (simp add: is_terminal_call_def step_def)
  next
    case (CallFail j v)
    then show ?thesis
      using assms fail_again [of s' x i v s t] by (simp add: is_terminal_call_def step_def)
  qed (use assms in \<open>simp_all add: is_terminal_call_def\<close>)
  have once: "step x ev s' = Normal s'"
    using again [of "clock s'"] by simp
  have gone: "i \<notin> set (runningSpinners s')"
    if "i \<notin> set (runningSpinners s) \<or> (started (spinners s i) \<noteq> None \<and> stopped (spinners s i) = None)"
  proof (cases ev)
    case (CallStop j)
    then show ?thesis
      using assms that not_live_after_stop [of i s x] by (simp add: is_terminal_call_def step_def)
  next
    case (CallSuccess j v)
    then show ?thesis
      using assms that
      by (simp add: is_terminal_call_def step_def success_eq)
         (rule not_live_after_stop, simp add: set_icon_def setText_def split: option.splits)
  next
    case (CallFail j v)
    then show ?thesis
      using assms that
      by (simp add: is_terminal_call_def step_def fail_eq)
         (rule not_live_after_stop, simp add: set_icon_def setText_def split: option.splits)
  qed (use assms in \<open>simp_all add: is_terminal_call_def\<close>)
  have later: "finished i (after x evs (final_state (update i u s')))
            \<and> (\<exists>w. after x evs (final_state (update i u s')) = setText i w (after x evs s'))
            \<and> tty (after x evs (final_state (update i u s'))) = tty (after x evs s')
            \<and> newBuffered (after x evs (final_state (update i u s'))) = newBuffered (after x evs s')
            \<and> console (after x evs (final_state (update i u s'))) = console (after x evs s')"
    if "started (spinners s i) \<noteq> None" "i \<notin> set (runningSpinners s) \<or> stopped (spinners s i) = None"
      "\<forall>e \<in> set evs. \<not> creates i e" for evs
  proof -
    note hyp = that
    have fin: "finished i s'"
      unfolding s' using assms(1) hyp(1,2) by (rule finished_after_terminal_call)
    then have "finished i (final_state (update i u s'))"
      using fin_update [of i i u] by (simp add: preserves_def)
    then have "finished i (after x evs (final_state (update i u s')))"
      using hyp(3) by (intro fin_after)
    moreover obtain w where "after x evs (setText i u s') = setText i w (after x evs s')"
      using after_but_text [OF hyp(3) fin] by blast
    ultimately show ?thesis
      by (auto simp add: update_def setText_reads)
  qed
  have not_running: "stop x i s1 = Normal s1 \<and> (\<exists>s2. step x ev s1 = Normal s2 \<and> touches_only i s1 s2)"
    if "\<not> (stopped (spinners s1 i) = None \<and> started (spinners s1 i) \<noteq> None)" for s1
    using that not_running_stop [of s1 i x] not_running_terminal_call [OF assms(1), of s1 x] by blast
  have upd: "update i u s' = Normal (s'\<lparr>spinners := (spinners s')(i := (spinners s' i)\<lparr>sp_text := u\<rparr>)\<rparr>)"
    by (simp add: update_def setText_def)
  have rend: "renderings x (final_state (update i u s')) = renderings x s'"
    if "i \<notin> set (runningSpinners s')"
    using that renderings_other_text [of i s' x u] by (simp add: update_def)
  show ?thesis
    using once again gone later not_running upd rend by blast
qed

theorem terminal_calls_idempotent_witness:
  "is_terminal_call 0 (CallSuccess 0 (Some (ascii ''Built'')))
   \<and> started (spinners active0 0) \<noteq> None \<and> stopped (spinners active0 0) = None
   \<and> \<not> creates 0 (CallStart 0) \<and> \<not> creates 0 (TimerFires 0)
   \<and> step ext0 (CallSuccess 0 (Some (ascii ''Built'')))
        (final_state (step ext0 (CallSuccess 0 (Some (ascii ''Built''))) active0))
       = Normal (final_state (step ext0 (CallSuccess 0 (Some (ascii ''Built''))) active0))
   \<and> stopped (spinners (final_state (step ext0 (CallSuccess 0 (Some (ascii ''Built''))) active0)) 0)
       \<noteq> None
   \<and> stop ext0 0 (final_state (step ext0 (CallSuccess 0 (Some (ascii ''Built''))) active0))
       = Normal (final_state (step ext0 (CallSuccess 0 (Some (ascii ''Built''))) active0))
   \<and> runningSpinners (final_state (step ext0 (CallSuccess 0 (Some (ascii ''Built''))) active0)) = []
   \<and> sp_text (spinners (final_state (update 0 (ascii ''late'')
          (final_state (step ext0 (CallSuccess 0 (Some (ascii ''Built''))) active0)))) 0) = ascii ''late''
   \<and> finished 0 (after ext0 [CallStart 0, TimerFires 0]
        (final_state (update 0 (ascii ''late'')
          (final_state (step ext0 (CallSuccess 0 (Some (ascii ''Built''))) active0)))))
   \<and> tty (after ext0 [CallStart 0, TimerFires 0]
        (final_state (update 0 (ascii ''late'')
          (final_state (step ext0 (CallSuccess 0 (Some (ascii ''Built''))) active0)))))
       = tty (after ext0 [CallStart 0, TimerFires 0]
          (final_state (step ext0 (CallSuccess 0 (Some (ascii ''Built''))) active0)))"
proof -
  let ?ev = "CallSuccess 0 (Some (ascii ''Built''))"
  let ?S = "final_state (step ext0 ?ev active0)"
  have h1: "is_terminal_call 0 ?ev"
    by (simp add: is_terminal_call_def)
  have h2: "started (spinners active0 0) \<noteq> None" "stopped (spinners active0 0) = None"
    by (simp_all add: sample_defs)
  have nc: "\<not> creates 0 (CallStart 0)" "\<not> creates 0 (TimerFires 0)"
    by (simp_all add: creates_def)
  have ev: "stopped (spinners ?S 0) \<noteq> None" "runningSpinners ?S = []"
    by (simp_all add: model_defs sample_defs Let_def ascii_def SPACE_def LF_def TAB_def)
  have up: "sp_text (spinners (final_state (update 0 (ascii ''late'') ?S)) 0) = ascii ''late''"
    by (simp add: update_def setText_def)
  note th = terminal_calls_idempotent [OF h1 refl, of ext0 active0 "ascii ''late''"]
  note again = th [THEN conjunct1]
  note not_running = th [THEN conjunct2, THEN conjunct2, THEN conjunct1, rule_format]
  note later = th [THEN conjunct2, THEN conjunct2, THEN conjunct2, THEN conjunct2, THEN conjunct2,
      rule_format]
  have c3: "stop ext0 0 ?S = Normal ?S"
    by (rule not_running [THEN conjunct1]) (simp add: ev(1))
  have c6: "finished 0 (after ext0 [CallStart 0, TimerFires 0] (final_state (update 0 (ascii ''late'') ?S)))"
    by (rule later [THEN conjunct1]) (use h2 nc in auto)
  have c7: "tty (after ext0 [CallStart 0, TimerFires 0] (final_state (update 0 (ascii ''late'') ?S)))
      = tty (after ext0 [CallStart 0, TimerFires 0] ?S)"
    by (rule later [THEN conjunct2, THEN conjunct2, THEN conjunct1]) (use h2 nc in auto)
  show ?thesis
    by (intro conjI h1 h2 nc ev up again c3 c6 c7)
qed

section \<open>The animation tick\<close>

lemma spin_frame: "(spin i s)\<lparr>spinners := spinners s\<rparr> = s"
  by (simp add: spin_def Let_def)

lemma spins_frame: "(foldl (\<lambda>s i. spin i s) s js)\<lparr>spinners := spinners s\<rparr> = s"
proof (induction js arbitrary: s)
  case Nil
  show ?case by simp
next
  case (Cons j js)
  have "(foldl (\<lambda>s i. spin i s) (spin j s) js)\<lparr>spinners := spinners (spin j s)\<rparr> = spin j s"
    by (rule Cons.IH)
  then have "((foldl (\<lambda>s i. spin i s) (spin j s) js)\<lparr>spinners := spinners (spin j s)\<rparr>)
               \<lparr>spinners := spinners s\<rparr> = (spin j s)\<lparr>spinners := spinners s\<rparr>"
    by simp
  then show ?case
    by (simp add: spin_frame)
qed

lemma spins_fields:
  "tty (foldl (\<lambda>s i. spin i s) s js) = tty s"
  "currentBufferHeight (foldl (\<lambda>s i. spin i s) s js) = currentBufferHeight s"
  "stdOutFault (foldl (\<lambda>s i. spin i s) s js) = stdOutFault s"
  "isRefreshing (foldl (\<lambda>s i. spin i s) s js) = isRefreshing s"
  "runningSpinners (foldl (\<lambda>s i. spin i s) s js) = runningSpinners s"
proof -
  let ?s' = "foldl (\<lambda>s i. spin i s) s js"
  have eq: "?s'\<lparr>spinners := spinners s\<rparr> = s"
    by (rule spins_frame)
  have "tty (?s'\<lparr>spinners := spinners s\<rparr>) = tty ?s'"
    "currentBufferHeight (?s'\<lparr>spinners := spinners s\<rparr>) = currentBufferHeight ?s'"
    "stdOutFault (?s'\<lparr>spinners := spinners s\<rparr>) = stdOutFault ?s'"
    "isRefreshing (?s'\<lparr>spinners := spinners s\<rparr>) = isRefreshing ?s'"
    "runningSpinners (?s'\<lparr>spinners := spinners s\<rparr>) = runningSpinners ?s'"
    by (simp_all add: isRefreshing_def)
  then show "tty ?s' = tty s" "currentBufferHeight ?s' = currentBufferHeight s"
    "stdOutFault ?s' = stdOutFault s" "isRefreshing ?s' = isRefreshing s"
    "runningSpinners ?s' = runningSpinners s"
    unfolding eq by simp_all
qed

lemma forEach_spin:
  "forEach js (\<lambda>sp. assign (spin sp)) s = Normal (foldl (\<lambda>s i. spin i s) s js)"
  by (induction js arbitrary: s) simp_all

lemma tick_eq:
  "timer_callback_run x SpinThenRefresh s =
     refreshTTY x (foldl (\<lambda>s i. spin i s) s (runningSpinners s))"
  by (simp add: timer_callback_run_def forEach_spin)

text \<open>
  The callback of the animation timer writes to the terminal: fired in \<open>active0\<close>, it
  redraws the frame.
\<close>

theorem animation_tick_counterexample:
  "timers active0 = [(0, 80, SpinThenRefresh), (1, 80, RefreshOnly)]
   \<and> tty (final_state (step ext0 (TimerFires 0) active0))
       = tty active0 @ [CursorTo 0, ClearLine 1, Write (ascii '' + Building'')]
   \<and> tty (final_state (step ext0 (TimerFires 0) active0)) \<noteq> tty active0"
  by (simp add: model_defs sample_defs Let_def ascii_def SPACE_def LF_def TAB_def)

text \<open>
  C6, as amended. \<open>spin\<close> changes nothing but the frame index of its handle; it moves
  the index of a started, not stopped handle whose icon has more than one frame to the
  next frame, modulo the number of frames, and leaves every other index. The callback of
  the animation timer applies \<open>spin\<close> to every live handle and then performs one redraw:
  on a working stream, with the multiplexer active, it erases the previous frame and
  writes the new one.
\<close>

theorem animation_tick:
  "(spin i s)\<lparr>spinners := spinners s\<rparr> = s
   \<and> (\<forall>j. j \<noteq> i \<longrightarrow> spinners (spin i s) j = spinners s j)
   \<and> (spinners (spin i s) i)\<lparr>iconIndex := iconIndex (spinners s i)\<rparr> = spinners s i
   \<and> iconIndex (spinners (spin i s) i) =
       (if started (spinners s i) \<noteq> None \<and> stopped (spinners s i) = None
           \<and> 1 < icon_length (icon (spinners s i))
        then if iconIndex (spinners s i) < icon_length (icon (spinners s i))
             then (iconIndex (spinners s i) + 1) mod icon_length (icon (spinners s i))
             else 0
        else iconIndex (spinners s i))
   \<and> timer_callback_run x SpinThenRefresh s =
       refreshTTY x (foldl (\<lambda>s i. spin i s) s (runningSpinners s))
   \<and> (stdOutFault s = None \<and> isRefreshing s \<longrightarrow>
        (\<exists>s'. timer_callback_run x SpinThenRefresh s = Normal s'
           \<and> tty s' = tty s @ clear_ops (currentBufferHeight s)
               @ [Write (frame x (foldl (\<lambda>s i. spin i s) s (runningSpinners s)))]))"
proof -
  have idx: "iconIndex (spinners (spin i s) i) =
       (if started (spinners s i) \<noteq> None \<and> stopped (spinners s i) = None
           \<and> 1 < icon_length (icon (spinners s i))
        then if iconIndex (spinners s i) < icon_length (icon (spinners s i))
             then (iconIndex (spinners s i) + 1) mod icon_length (icon (spinners s i))
             else 0
        else iconIndex (spinners s i))"
    by (auto simp add: spin_def Let_def mod_Suc)
  have redraw: "\<exists>s'. timer_callback_run x SpinThenRefresh s = Normal s'
           \<and> tty s' = tty s @ clear_ops (currentBufferHeight s)
               @ [Write (frame x (foldl (\<lambda>s i. spin i s) s (runningSpinners s)))]"
    if "stdOutFault s = None" "isRefreshing s"
    using that by (simp add: tick_eq refreshTTY_ok spins_fields)
  show ?thesis
    using idx redraw by (simp add: tick_eq) (simp add: spin_def Let_def)
qed

theorem animation_tick_witness:
  "stdOutFault active0 = None \<and> isRefreshing active0
   \<and> iconIndex (spinners (spin 0 active0) 0) = 1
   \<and> iconIndex (spinners (spin 0 (spin 0 active0)) 0) = 0
   \<and> spinners (spin 0 active0) 1 = spinners active0 1
   \<and> (\<exists>s'. timer_callback_run ext0 SpinThenRefresh active0 = Normal s'
        \<and> tty s' = tty active0 @ [CursorTo 0, ClearLine 1, Write (ascii '' + Building'')])"
  using animation_tick [where i = 0 and s = active0 and x = ext0]
  by (simp add: model_defs sample_defs Let_def ascii_def SPACE_def LF_def TAB_def)

section \<open>Exceptions of the writer\<close>

text \<open>
  C8. An exception of the stream is not caught on the rendering paths: with a stream whose
  operations throw, opening a handle through \<open>spin\<close> of a log method throws to the
  caller, as do \<open>stop\<close> of the last live handle and the timer callback; and with a
  console whose methods throw, a plain logging call throws as well, from the
  \<open>console.error\<close> of its own \<open>catch\<close>.
\<close>

theorem stream_failure_reaches_caller:
  "(\<exists>s'. logMethod_spin ext0 0 RootLogger info (ascii ''Building'') (spinnerOptions spinner0)
            broken_idle0 = Throw (ErrorObject (ascii ''EIO'')) s')
   \<and> (\<exists>s'. stop ext0 0 broken_active0 = Throw (ErrorObject (ascii ''EIO'')) s')
   \<and> (\<exists>s'. step ext0 (TimerFires 0) broken_active0 = Throw (ErrorObject (ascii ''EIO'')) s')
   \<and> (\<exists>s'. step ext0 (CallLog RootLogger info [ascii ''note''])
            (idle0\<lparr>consoleFault := (\<lambda>m. Some (ErrorObject (ascii ''EPIPE'')))\<rparr>)
          = Throw (ErrorObject (ascii ''EPIPE'')) s')"
  by (simp add: broken_idle0_def broken_active0_def logMethod_spin_def new_TTYSpinner_def
        model_defs sample_defs Let_def ascii_def SPACE_def LF_def TAB_def)

end
